theory Spec2Isabelle
  imports Complex_Main "HOL-Library.Multiset" "HOL-Library.Word" "HOL-Library.AList"
begin

section \<open>Python exceptions\<close>

text \<open>
  Every exception the modelled code can raise is a value. A function that can raise
  returns \<open>py_error + 'a\<close>, with \<open>Inl\<close> for the exception.
\<close>

datatype py_error =
    AssertionError
  | NotImplementedError
  | IndexError
  | KeyError
  | TypeError
  | ValueError
  | ZeroDivisionError
  | RuntimeError

section \<open>Floating-point numbers\<close>

text \<open>
  The float tensors of the modelled code hold IEEE 754 binary32 numbers
  (\<^verbatim>\<open>torch.float32\<close>, torch's default dtype); a Python \<^verbatim>\<open>float\<close> is a binary64
  number. A floating-point value is a finite real, an infinity or NaN. The two zeros are
  identified: the sign of a zero is not modelled.
\<close>

datatype fp = Finite real | PosInf | NegInf | NaN

text \<open>
  Rounding to nearest, ties to even. \<open>round_to p emin x\<close> is the multiple of the unit
  in the last place of \<open>x\<close> that is nearest to \<open>x\<close>, for a format with \<open>p\<close>
  significant bits and least exponent \<open>emin\<close> (below \<open>2 ^ emin\<close> the numbers are
  subnormal: the unit stays that of \<open>emin\<close>). \<open>to_fp\<close> then gives an infinity when the
  rounded number exceeds the format's range.
\<close>

definition round_half_even :: "real \<Rightarrow> int" where
  "round_half_even y =
     (let f = \<lfloor>y\<rfloor>; d = y - of_int f
      in if d < 1 / 2 then f else if 1 / 2 < d then f + 1 else if even f then f else f + 1)"

definition round_to :: "nat \<Rightarrow> int \<Rightarrow> real \<Rightarrow> real" where
  "round_to p emin x =
     (if x = 0 then 0
      else let e = max \<lfloor>log 2 \<bar>x\<bar>\<rfloor> emin; q = 2 powr of_int (e - int p + 1)
           in of_int (round_half_even (x / q)) * q)"

definition to_fp :: "nat \<Rightarrow> int \<Rightarrow> int \<Rightarrow> real \<Rightarrow> fp" where
  "to_fp p emin emax x =
     (let y = round_to p emin x
      in if 2 powr of_int (emax + 1) \<le> \<bar>y\<bar> then (if 0 < y then PosInf else NegInf)
         else Finite y)"

text \<open>Rounding a real to binary32 and to binary64.\<close>

definition f32 :: "real \<Rightarrow> fp" where
  "f32 = to_fp 24 (- 126) 127"

definition f64 :: "real \<Rightarrow> fp" where
  "f64 = to_fp 53 (- 1022) 1023"

text \<open>
  The conversion of a value to binary32, as when a Python \<^verbatim>\<open>float\<close> meets a float32
  tensor; \<open>is_f32\<close> holds of the values a float32 tensor can hold.
\<close>

definition cast32 :: "fp \<Rightarrow> fp" where
  "cast32 a = (case a of Finite x \<Rightarrow> f32 x | _ \<Rightarrow> a)"

definition is_f32 :: "fp \<Rightarrow> bool" where
  "is_f32 a = (cast32 a = a)"

definition finite_fp :: "fp \<Rightarrow> bool" where
  "finite_fp a = (case a of Finite x \<Rightarrow> True | _ \<Rightarrow> False)"

text \<open>
  The arithmetic operations: the exact result of finite operands is rounded by \<open>rnd\<close>
  (\<open>f32\<close> for an operation on float32 tensors, \<open>f64\<close> for one on Python floats); NaN
  propagates; \<open>inf - inf\<close>, \<open>inf * 0\<close>, \<open>0 / 0\<close> and \<open>inf / inf\<close> are NaN.
\<close>

definition fp_neg :: "fp \<Rightarrow> fp" where
  "fp_neg a = (case a of Finite x \<Rightarrow> Finite (- x) | PosInf \<Rightarrow> NegInf | NegInf \<Rightarrow> PosInf | NaN \<Rightarrow> NaN)"

definition is_negative :: "fp \<Rightarrow> bool" where
  "is_negative a = (case a of Finite x \<Rightarrow> x < 0 | NegInf \<Rightarrow> True | _ \<Rightarrow> False)"

definition fp_add :: "(real \<Rightarrow> fp) \<Rightarrow> fp \<Rightarrow> fp \<Rightarrow> fp" where
  "fp_add rnd a b =
     (case (a, b) of
        (Finite x, Finite y) \<Rightarrow> rnd (x + y)
      | (NaN, _) \<Rightarrow> NaN
      | (_, NaN) \<Rightarrow> NaN
      | (PosInf, NegInf) \<Rightarrow> NaN
      | (NegInf, PosInf) \<Rightarrow> NaN
      | (PosInf, _) \<Rightarrow> PosInf
      | (_, PosInf) \<Rightarrow> PosInf
      | (NegInf, _) \<Rightarrow> NegInf
      | (_, NegInf) \<Rightarrow> NegInf)"

definition fp_sub :: "(real \<Rightarrow> fp) \<Rightarrow> fp \<Rightarrow> fp \<Rightarrow> fp" where
  "fp_sub rnd a b = fp_add rnd a (fp_neg b)"

definition fp_mul :: "(real \<Rightarrow> fp) \<Rightarrow> fp \<Rightarrow> fp \<Rightarrow> fp" where
  "fp_mul rnd a b =
     (case (a, b) of
        (Finite x, Finite y) \<Rightarrow> rnd (x * y)
      | (NaN, _) \<Rightarrow> NaN
      | (_, NaN) \<Rightarrow> NaN
      | _ \<Rightarrow>
          if a = Finite 0 \<or> b = Finite 0 then NaN
          else if is_negative a = is_negative b then PosInf else NegInf)"

definition fp_div :: "(real \<Rightarrow> fp) \<Rightarrow> fp \<Rightarrow> fp \<Rightarrow> fp" where
  "fp_div rnd a b =
     (case (a, b) of
        (Finite x, Finite y) \<Rightarrow>
          if y = 0 then (if x = 0 then NaN else if 0 < x then PosInf else NegInf)
          else rnd (x / y)
      | (NaN, _) \<Rightarrow> NaN
      | (_, NaN) \<Rightarrow> NaN
      | (Finite x, _) \<Rightarrow> Finite 0
      | (_, Finite y) \<Rightarrow> if is_negative a = is_negative b then PosInf else NegInf
      | _ \<Rightarrow> NaN)"

definition fp_sqrt :: "(real \<Rightarrow> fp) \<Rightarrow> fp \<Rightarrow> fp" where
  "fp_sqrt rnd a =
     (case a of
        Finite x \<Rightarrow> if x < 0 then NaN else rnd (sqrt x)
      | PosInf \<Rightarrow> PosInf
      | _ \<Rightarrow> NaN)"

section \<open>VanillaRolloutStorage\<close>

text \<open>
  Source: \<^verbatim>\<open>hsuanwu/xploit/storage/vanilla_rollout_storage.py\<close>.

  A tensor of shape \<open>(steps, num_envs, ...)\<close> is a list (time) of lists (environment)
  of entries; the trailing dimensions are folded into the entry type: an observation is
  an opaque \<open>'o\<close>, an action vector an opaque \<open>'a\<close>, the remaining fields have a
  trailing dimension of size 1 and the entry is a float32 number. \<open>discount\<close> and
  \<open>gae_lambda\<close> are Python floats.
\<close>

record ('o, 'a) vanilla_rollout_storage =
  num_steps :: nat
  num_envs :: nat
  discount :: fp
  gae_lambda :: fp
  action_dim :: nat
  obs :: "'o list list"
  actions :: "'a list list"
  rewards :: "fp list list"
  terminateds :: "fp list list"
  truncateds :: "fp list list"
  log_probs :: "fp list list"
  values_buf :: "fp list list"
  returns :: "fp list list"
  advantages :: "fp list list"
  global_step :: nat

text \<open>
  The shapes that \<^verbatim>\<open>__init__\<close> allocates and that no method changes: \<open>obs\<close>,
  \<open>actions\<close>, \<open>rewards\<close>, \<open>log_probs\<close>, \<open>values\<close>, \<open>returns\<close> and
  \<open>advantages\<close> have \<open>num_steps\<close> frames, \<open>terminateds\<close> and \<open>truncateds\<close>
  have \<open>num_steps + 1\<close>; every frame has \<open>num_envs\<close> entries.
\<close>

definition shaped :: "nat \<Rightarrow> nat \<Rightarrow> 'x list list \<Rightarrow> bool" where
  "shaped t n xs = (length xs = t \<and> list_all (\<lambda>row. length row = n) xs)"

definition wf_storage :: "('o, 'a) vanilla_rollout_storage \<Rightarrow> bool" where
  "wf_storage s =
     (shaped (num_steps s) (num_envs s) (obs s) \<and>
      shaped (num_steps s) (num_envs s) (actions s) \<and>
      shaped (num_steps s) (num_envs s) (rewards s) \<and>
      shaped (Suc (num_steps s)) (num_envs s) (terminateds s) \<and>
      shaped (Suc (num_steps s)) (num_envs s) (truncateds s) \<and>
      shaped (num_steps s) (num_envs s) (log_probs s) \<and>
      shaped (num_steps s) (num_envs s) (values_buf s) \<and>
      shaped (num_steps s) (num_envs s) (returns s) \<and>
      shaped (num_steps s) (num_envs s) (advantages s))"

subsection \<open>Construction\<close>

text \<open>
  \<^verbatim>\<open>torch.empty\<close> returns uninitialised memory: its contents are a parameter, a
  function from frame and environment to the entry found there.
\<close>

definition torch_empty :: "nat \<Rightarrow> nat \<Rightarrow> (nat \<Rightarrow> nat \<Rightarrow> 'x) \<Rightarrow> 'x list list" where
  "torch_empty t n mem = map (\<lambda>i. map (\<lambda>e. mem i e) [0..<n]) [0..<t]"

record ('o, 'a) uninitialised =
  obs_mem :: "nat \<Rightarrow> nat \<Rightarrow> 'o"
  actions_mem :: "nat \<Rightarrow> nat \<Rightarrow> 'a"
  rewards_mem :: "nat \<Rightarrow> nat \<Rightarrow> fp"
  terminateds_mem :: "nat \<Rightarrow> nat \<Rightarrow> fp"
  truncateds_mem :: "nat \<Rightarrow> nat \<Rightarrow> fp"
  log_probs_mem :: "nat \<Rightarrow> nat \<Rightarrow> fp"
  values_mem :: "nat \<Rightarrow> nat \<Rightarrow> fp"
  returns_mem :: "nat \<Rightarrow> nat \<Rightarrow> fp"
  advantages_mem :: "nat \<Rightarrow> nat \<Rightarrow> fp"

text \<open>
  \<^verbatim>\<open>__init__\<close>: \<open>obs\<close> gets \<open>num_steps\<close> frames; the action type selects the
  action dimension (\<^verbatim>\<open>action_shape[0]\<close> raises IndexError on an empty shape) or raises
  NotImplementedError; \<open>terminateds\<close> and \<open>truncateds\<close> get \<open>num_steps + 1\<close> frames
  and their frame 0 is zeroed.
\<close>

definition VanillaRolloutStorage_init ::
  "('o, 'a) uninitialised \<Rightarrow> nat list \<Rightarrow> string \<Rightarrow> nat \<Rightarrow> nat \<Rightarrow> fp \<Rightarrow> fp \<Rightarrow>
   py_error + ('o, 'a) vanilla_rollout_storage" where
  "VanillaRolloutStorage_init mem action_shape action_type n_steps n_envs disc lam =
     (let build = (\<lambda>a_dim.
        \<lparr> num_steps = n_steps, num_envs = n_envs, discount = disc, gae_lambda = lam,
          action_dim = a_dim,
          obs = torch_empty n_steps n_envs (obs_mem mem),
          actions = torch_empty n_steps n_envs (actions_mem mem),
          rewards = torch_empty n_steps n_envs (rewards_mem mem),
          terminateds =
            (torch_empty (n_steps + 1) n_envs (terminateds_mem mem))[0 := replicate n_envs (Finite 0)],
          truncateds =
            (torch_empty (n_steps + 1) n_envs (truncateds_mem mem))[0 := replicate n_envs (Finite 0)],
          log_probs = torch_empty n_steps n_envs (log_probs_mem mem),
          values_buf = torch_empty n_steps n_envs (values_mem mem),
          returns = torch_empty n_steps n_envs (returns_mem mem),
          advantages = torch_empty n_steps n_envs (advantages_mem mem),
          global_step = 0 \<rparr>)
      in if action_type = ''Discrete'' then Inr (build 1)
         else if action_type = ''Box'' then
           (case action_shape of [] \<Rightarrow> Inl IndexError | d # _ \<Rightarrow> Inr (build d))
         else Inl NotImplementedError)"

definition bind_err :: "py_error + 'x \<Rightarrow> ('x \<Rightarrow> py_error + 'y) \<Rightarrow> py_error + 'y" where
  "bind_err m f = (case m of Inl e \<Rightarrow> Inl e | Inr x \<Rightarrow> f x)"

subsection \<open>add and reset\<close>

text \<open>
  \<^verbatim>\<open>buf[i].copy_(src)\<close>: indexing a frame outside the buffer raises IndexError;
  \<^verbatim>\<open>copy_\<close> writes the source over the frame, broadcasting a source with a single
  entry, and raises RuntimeError on any other length mismatch.
\<close>

definition copy_frame :: "'x list list \<Rightarrow> nat \<Rightarrow> 'x list \<Rightarrow> py_error + 'x list list" where
  "copy_frame buf i src =
     (if i \<ge> length buf then Inl IndexError
      else if length src = length (buf ! i) then Inr (buf[i := src])
      else if length src = 1 then Inr (buf[i := replicate (length (buf ! i)) (hd src)])
      else Inl RuntimeError)"

text \<open>The arguments of one \<^verbatim>\<open>add\<close> call: tensors, the float ones of dtype float32.\<close>

record ('o, 'a) transition =
  t_obs :: "'o list"
  t_actions :: "'a list"
  t_rewards :: "fp list"
  t_terminateds :: "fp list"
  t_truncateds :: "fp list"
  t_log_probs :: "fp list"
  t_values :: "fp list"

definition add ::
  "('o, 'a) vanilla_rollout_storage \<Rightarrow> ('o, 'a) transition \<Rightarrow>
   py_error + ('o, 'a) vanilla_rollout_storage" where
  "add s tr =
     bind_err (copy_frame (obs s) (global_step s) (t_obs tr)) (\<lambda>obs'.
     bind_err (copy_frame (actions s) (global_step s) (t_actions tr)) (\<lambda>actions'.
     bind_err (copy_frame (rewards s) (global_step s) (t_rewards tr)) (\<lambda>rewards'.
     bind_err (copy_frame (terminateds s) (global_step s + 1) (t_terminateds tr)) (\<lambda>terminateds'.
     bind_err (copy_frame (truncateds s) (global_step s + 1) (t_truncateds tr)) (\<lambda>truncateds'.
     bind_err (copy_frame (log_probs s) (global_step s) (t_log_probs tr)) (\<lambda>log_probs'.
     bind_err (copy_frame (values_buf s) (global_step s) (t_values tr)) (\<lambda>values'.
       if num_steps s = 0 then Inl ZeroDivisionError
       else Inr (s\<lparr> obs := obs', actions := actions', rewards := rewards',
                    terminateds := terminateds', truncateds := truncateds',
                    log_probs := log_probs', values_buf := values',
                    global_step := (global_step s + 1) mod num_steps s \<rparr>))))))))"

text \<open>
  \<^verbatim>\<open>reset\<close> copies the last frame of \<open>terminateds\<close> and of \<open>truncateds\<close> into
  their frame 0, and touches nothing else. Indexing an empty buffer raises IndexError.
\<close>

definition reset ::
  "('o, 'a) vanilla_rollout_storage \<Rightarrow> py_error + ('o, 'a) vanilla_rollout_storage" where
  "reset s =
     (if terminateds s = [] then Inl IndexError
      else bind_err (copy_frame (terminateds s) 0 (last (terminateds s))) (\<lambda>terminateds'.
        if truncateds s = [] then Inl IndexError
        else bind_err (copy_frame (truncateds s) 0 (last (truncateds s))) (\<lambda>truncateds'.
          Inr (s\<lparr> terminateds := terminateds', truncateds := truncateds' \<rparr>))))"

text \<open>A sequence of \<^verbatim>\<open>add\<close> calls; the first exception ends it.\<close>

fun add_all ::
  "('o, 'a) vanilla_rollout_storage \<Rightarrow> ('o, 'a) transition list \<Rightarrow>
   py_error + ('o, 'a) vanilla_rollout_storage" where
  "add_all s [] = Inr s"
| "add_all s (tr # trs) = bind_err (add s tr) (\<lambda>s'. add_all s' trs)"

text \<open>The arguments of an \<^verbatim>\<open>add\<close> call have one entry for each environment.\<close>

definition transition_for :: "nat \<Rightarrow> ('o, 'a) transition \<Rightarrow> bool" where
  "transition_for n tr =
     (length (t_obs tr) = n \<and> length (t_actions tr) = n \<and> length (t_rewards tr) = n \<and>
      length (t_terminateds tr) = n \<and> length (t_truncateds tr) = n \<and>
      length (t_log_probs tr) = n \<and> length (t_values tr) = n)"

subsection \<open>compute_returns_and_advantages\<close>

text \<open>
  \<^verbatim>\<open>tensor.mean()\<close> and \<^verbatim>\<open>tensor.std()\<close> are torch's reductions over all entries
  of a float32 tensor. The order in which torch adds the entries and the precision of its
  accumulator are not fixed by the source, so the two reductions are parameters.
\<close>

record reductions =
  tensor_mean :: "fp list \<Rightarrow> fp"
  tensor_std :: "fp list \<Rightarrow> fp"

text \<open>
  The bootstrap argument \<open>last_values\<close> is a float32 tensor of shape \<open>(k, 1)\<close>, the
  list of its \<open>k\<close> entries. A tensor expression that combines it with a frame of shape
  \<open>(num_envs, 1)\<close> broadcasts it: with \<open>k = num_envs\<close> it is read as it is, with
  \<open>k = 1\<close> its entry is repeated, and any other \<open>k\<close> raises RuntimeError (in the
  product when \<open>num_envs \<noteq> 1\<close>, in the assignment to the frame of \<open>advantages\<close>
  otherwise) before anything is written.
\<close>

definition broadcast_envs :: "nat \<Rightarrow> 'x list \<Rightarrow> py_error + 'x list" where
  "broadcast_envs n xs =
     (if length xs = n then Inr xs
      else if length xs = 1 then Inr (replicate n (hd xs))
      else Inl RuntimeError)"

text \<open>
  One iteration of the backward loop for frame \<open>step\<close>: the tensor expressions of the
  source, read entry by entry over the \<open>num_envs\<close> environments, each operation
  rounding to float32. \<open>gae\<close> is the value of the previous iteration, \<open>last_values\<close>
  the broadcast bootstrap argument. A Python float that meets a tensor is converted to
  float32 first; the product \<^verbatim>\<open>self._discount * self._gae_lambda\<close> is one of Python
  floats.
\<close>

definition gae_body ::
  "('o, 'a) vanilla_rollout_storage \<Rightarrow> fp list \<Rightarrow> nat \<Rightarrow> fp list \<Rightarrow> fp list" where
  "gae_body s last_values step gae =
     map (\<lambda>e.
       let next_non_terminal =
             (if step = num_steps s - 1 then fp_sub f32 (Finite 1) (last (terminateds s) ! e)
              else fp_sub f32 (Finite 1) (terminateds s ! (step + 1) ! e));
           next_values =
             (if step = num_steps s - 1 then last_values ! e
              else values_buf s ! (step + 1) ! e);
           delta =
             fp_sub f32
               (fp_add f32 (rewards s ! step ! e)
                  (fp_mul f32 (fp_mul f32 (cast32 (discount s)) next_values) next_non_terminal))
               (values_buf s ! step ! e)
       in fp_add f32 delta
            (fp_mul f32
               (fp_mul f32 (cast32 (fp_mul f64 (discount s) (gae_lambda s))) next_non_terminal)
               (gae ! e)))
     [0..<num_envs s]"

text \<open>
  \<^verbatim>\<open>for step in reversed(range(num_steps))\<close>: \<open>gae_loop s last_values k gae adv\<close> runs
  the iterations for the frames \<open>k - 1\<close> down to \<open>0\<close>, writing each frame of the
  advantages buffer \<open>adv\<close>.
\<close>

fun gae_loop ::
  "('o, 'a) vanilla_rollout_storage \<Rightarrow> fp list \<Rightarrow> nat \<Rightarrow> fp list \<Rightarrow> fp list list \<Rightarrow>
   fp list list" where
  "gae_loop s last_values 0 gae adv = adv"
| "gae_loop s last_values (Suc step) gae adv =
     (let gae' = gae_body s last_values step gae
      in gae_loop s last_values step gae' (adv[step := gae']))"

text \<open>
  The advantages buffer when the loop ends, before it is standardized. \<open>last_values\<close>
  is read in the first iteration only, so a loop of no iteration never meets its shape.
  \<open>gae\<close> starts as the integer 0, which every entry of the first iteration reads as
  zero.
\<close>

definition gae_advantages ::
  "('o, 'a) vanilla_rollout_storage \<Rightarrow> fp list \<Rightarrow> py_error + fp list list" where
  "gae_advantages s last_values =
     (if num_steps s = 0 then Inr (advantages s)
      else bind_err (broadcast_envs (num_envs s) last_values) (\<lambda>lv.
        Inr (gae_loop s lv (num_steps s) (replicate (num_envs s) (Finite 0)) (advantages s))))"

text \<open>
  \<^verbatim>\<open>(advantages - mean) / (std + 1e-5)\<close> for one entry; \<^verbatim>\<open>1e-5\<close> is the Python float
  nearest to that decimal.
\<close>

definition standardize :: "fp \<Rightarrow> fp \<Rightarrow> fp \<Rightarrow> fp" where
  "standardize mean std a =
     fp_div f32 (fp_sub f32 a mean) (fp_add f32 std (cast32 (f64 (1 / 100000))))"

text \<open>
  After the loop: \<^verbatim>\<open>self.returns = self.advantages + self.values\<close>, then the advantages
  are replaced by the standardized ones.
\<close>

definition compute_returns_and_advantages ::
  "reductions \<Rightarrow> ('o, 'a) vanilla_rollout_storage \<Rightarrow> fp list \<Rightarrow>
   py_error + ('o, 'a) vanilla_rollout_storage" where
  "compute_returns_and_advantages red s last_values =
     bind_err (gae_advantages s last_values) (\<lambda>adv.
       let ret = map2 (map2 (fp_add f32)) adv (values_buf s);
           mean = tensor_mean red (concat adv);
           std = tensor_std red (concat adv)
       in Inr (s\<lparr> returns := ret, advantages := map (map (standardize mean std)) adv \<rparr>))"

subsection \<open>generator\<close>

text \<open>
  \<^verbatim>\<open>SubsetRandomSampler(indices)\<close> of torch yields
  \<^verbatim>\<open>indices[i] for i in torch.randperm(len(indices))\<close>. The random permutation is the
  parameter \<open>randperm\<close>, a permutation of \<open>[0..<length indices]\<close>.
\<close>

definition SubsetRandomSampler :: "nat list \<Rightarrow> nat list \<Rightarrow> nat list" where
  "SubsetRandomSampler indices randperm = map (\<lambda>i. indices ! i) randperm"

text \<open>
  \<^verbatim>\<open>BatchSampler(sampler, batch_size, drop_last=True)\<close> of torch: the constructor
  raises ValueError unless \<open>batch_size\<close> is a positive integer; iterating yields the
  sampler's elements in consecutive groups of exactly \<open>batch_size\<close> and drops a last
  group that is shorter.
\<close>

function batches_drop_last :: "nat \<Rightarrow> 'x list \<Rightarrow> 'x list list" where
  "batches_drop_last n xs =
     (if n = 0 \<or> length xs < n then []
      else take n xs # batches_drop_last n (drop n xs))"
  by pat_completeness auto
termination
  by (relation "measure (\<lambda>(n, xs). length xs)") auto

declare batches_drop_last.simps [simp del]

definition BatchSampler :: "nat list \<Rightarrow> int \<Rightarrow> py_error + nat list list" where
  "BatchSampler sampler batch_size =
     (if batch_size \<le> 0 then Inl ValueError
      else Inr (batches_drop_last (nat batch_size) sampler))"

text \<open>
  \<^verbatim>\<open>tensor.view(-1, ...)[indices]\<close>: the first two dimensions are flattened
  (frame-major) and the rows at \<open>indices\<close> are gathered; an index outside the
  flattened tensor raises IndexError.
\<close>

definition gather :: "'x list list \<Rightarrow> nat list \<Rightarrow> py_error + 'x list" where
  "gather xs indices =
     (let flat = concat xs in
      if list_all (\<lambda>i. i < length flat) indices then Inr (map (\<lambda>i. flat ! i) indices)
      else Inl IndexError)"

record ('o, 'a) mini_batch =
  batch_obs :: "'o list"
  batch_actions :: "'a list"
  batch_values :: "fp list"
  batch_returns :: "fp list"
  batch_terminateds :: "fp list"
  batch_truncateds :: "fp list"
  batch_old_log_probs :: "fp list"
  adv_targ :: "fp list"

text \<open>The body of the \<^verbatim>\<open>for indices in sampler\<close> loop up to its \<^verbatim>\<open>yield\<close>.\<close>

definition gather_mini_batch ::
  "('o, 'a) vanilla_rollout_storage \<Rightarrow> nat list \<Rightarrow> py_error + ('o, 'a) mini_batch" where
  "gather_mini_batch s indices =
     bind_err (gather (obs s) indices) (\<lambda>b_obs.
     bind_err (gather (actions s) indices) (\<lambda>b_actions.
     bind_err (gather (values_buf s) indices) (\<lambda>b_values.
     bind_err (gather (returns s) indices) (\<lambda>b_returns.
     bind_err (gather (butlast (terminateds s)) indices) (\<lambda>b_terminateds.
     bind_err (gather (butlast (truncateds s)) indices) (\<lambda>b_truncateds.
     bind_err (gather (log_probs s) indices) (\<lambda>b_old_log_probs.
     bind_err (gather (advantages s) indices) (\<lambda>b_adv.
       Inr \<lparr> batch_obs = b_obs, batch_actions = b_actions, batch_values = b_values,
             batch_returns = b_returns, batch_terminateds = b_terminateds,
             batch_truncateds = b_truncateds, batch_old_log_probs = b_old_log_probs,
             adv_targ = b_adv \<rparr>))))))))"

text \<open>
  A Python generator produces a finite sequence of yielded values and then ends, either
  normally or with an exception: the model returns the list of yielded values and the
  exception that ended the iteration, if any. The body of a generator function runs at
  the first \<^verbatim>\<open>next\<close>, so an exception raised before the first \<^verbatim>\<open>yield\<close> shows as
  an empty list of values with an error.
\<close>

fun yield_batches ::
  "('o, 'a) vanilla_rollout_storage \<Rightarrow> nat list list \<Rightarrow>
   ('o, 'a) mini_batch list \<times> py_error option" where
  "yield_batches s [] = ([], None)"
| "yield_batches s (indices # rest) =
     (case gather_mini_batch s indices of
        Inl e \<Rightarrow> ([], Some e)
      | Inr b \<Rightarrow> (case yield_batches s rest of (bs, e) \<Rightarrow> (b # bs, e)))"

text \<open>
  The sampler that \<^verbatim>\<open>generator\<close> builds before its loop: the assertion, the
  floor division (Python's \<^verbatim>\<open>//\<close> rounds down, as \<open>div\<close> on \<open>int\<close> does, and raises
  on a zero divisor) and the two torch samplers.
\<close>

definition generator_sampler ::
  "('o, 'a) vanilla_rollout_storage \<Rightarrow> nat list \<Rightarrow> int \<Rightarrow> py_error + nat list list" where
  "generator_sampler s randperm num_mini_batch =
     (let batch_size = num_envs s * num_steps s in
      if \<not> (int batch_size \<ge> num_mini_batch) then Inl AssertionError
      else if num_mini_batch = 0 then Inl ZeroDivisionError
      else
        let mini_batch_size = int batch_size div num_mini_batch in
        BatchSampler (SubsetRandomSampler [0..<batch_size] randperm) mini_batch_size)"

definition generator ::
  "('o, 'a) vanilla_rollout_storage \<Rightarrow> nat list \<Rightarrow> int \<Rightarrow>
   ('o, 'a) mini_batch list \<times> py_error option" where
  "generator s randperm num_mini_batch =
     (case generator_sampler s randperm num_mini_batch of
        Inl e \<Rightarrow> ([], Some e)
      | Inr sampler \<Rightarrow> yield_batches s sampler)"

text \<open>
  What a mini-batch is meant to be, to compare \<open>generator\<close> with: the transitions at
  the given indices, that is, for each field the rows of the flattened buffer at these
  indices (the flags without their overlap frame).
\<close>

definition rows_at :: "'x list list \<Rightarrow> nat list \<Rightarrow> 'x list" where
  "rows_at xs indices = map (\<lambda>i. concat xs ! i) indices"

definition transitions_at ::
  "('o, 'a) vanilla_rollout_storage \<Rightarrow> nat list \<Rightarrow> ('o, 'a) mini_batch" where
  "transitions_at s indices =
     \<lparr> batch_obs = rows_at (obs s) indices,
       batch_actions = rows_at (actions s) indices,
       batch_values = rows_at (values_buf s) indices,
       batch_returns = rows_at (returns s) indices,
       batch_terminateds = rows_at (butlast (terminateds s)) indices,
       batch_truncateds = rows_at (butlast (truncateds s)) indices,
       batch_old_log_probs = rows_at (log_probs s) indices,
       adv_targ = rows_at (advantages s) indices \<rparr>"

section \<open>DistributedStorage: construction\<close>

text \<open>
  Source: \<^verbatim>\<open>hsuanwu/xploit/storage/distributed_storage.py\<close>.

  The pool is the dictionary \<open>storages\<close>: an association list (Python dictionaries
  keep insertion order) from a field's key to the list of its \<open>num_storages\<close>
  shared-memory tensors, one for each slot; a tensor is the list of its
  \<open>num_steps + 1\<close> frames, and a frame is an opaque value \<open>'v\<close>. The tensors are
  allocated once and never rebound, only written in place, so a slot index and a key are
  the address of a tensor.
\<close>

type_synonym 'v storages = "(string \<times> 'v list list) list"

text \<open>The branch on the action type, lines 48 to 53 of the constructor.\<close>

definition action_dim_of :: "string \<Rightarrow> nat list \<Rightarrow> py_error + nat" where
  "action_dim_of action_type action_shape =
     (if action_type = ''Discrete'' then Inr 1
      else if action_type = ''Box'' then
        (case action_shape of [] \<Rightarrow> Inl IndexError | d # _ \<Rightarrow> Inr d)
      else Inl NotImplementedError)"

text \<open>
  The \<open>specs\<close> dictionary: for each key the size of its tensor. Building it evaluates
  \<^verbatim>\<open>action_shape[0]\<close> for \<open>policy_logits\<close>, which raises IndexError on an empty
  shape.
\<close>

definition specs :: "nat list \<Rightarrow> nat list \<Rightarrow> nat \<Rightarrow> py_error + (string \<times> nat list) list" where
  "specs obs_shape action_shape n_steps =
     (case action_shape of
        [] \<Rightarrow> Inl IndexError
      | d # _ \<Rightarrow> Inr
          [(''obs'', (n_steps + 1) # obs_shape),
           (''reward'', [n_steps + 1]),
           (''terminated'', [n_steps + 1]),
           (''truncated'', [n_steps + 1]),
           (''episode_return'', [n_steps + 1]),
           (''episode_step'', [n_steps + 1]),
           (''last_action'', [n_steps + 1]),
           (''policy_logits'', [n_steps + 1, d]),
           (''baseline'', [n_steps + 1]),
           (''action'', [n_steps + 1])])"

record 'v distributed_storage =
  ds_num_steps :: nat
  ds_num_storages :: nat
  ds_batch_size :: nat
  ds_action_dim :: nat
  storages :: "'v storages"

text \<open>
  The constructor. Allocation of shared memory is an effect: the function takes the
  number of shared-memory tensors allocated so far and returns it updated. The contents
  of \<^verbatim>\<open>torch.empty\<close> are the parameter \<open>mem\<close> (key, slot, frame). The double loop
  appends one tensor for each key in each of the \<open>num_storages\<close> rounds.
\<close>

definition DistributedStorage_init ::
  "(string \<Rightarrow> nat \<Rightarrow> nat \<Rightarrow> 'v) \<Rightarrow> nat list \<Rightarrow> nat list \<Rightarrow> string \<Rightarrow> nat \<Rightarrow> nat \<Rightarrow> nat \<Rightarrow> nat \<Rightarrow>
   (py_error + 'v distributed_storage) \<times> nat" where
  "DistributedStorage_init mem obs_shape action_shape action_type n_steps n_storages
       batch_size allocated =
     (case action_dim_of action_type action_shape of
        Inl e \<Rightarrow> (Inl e, allocated)
      | Inr a_dim \<Rightarrow>
          (case specs obs_shape action_shape n_steps of
             Inl e \<Rightarrow> (Inl e, allocated)
           | Inr sp \<Rightarrow>
               (Inr \<lparr> ds_num_steps = n_steps, ds_num_storages = n_storages,
                      ds_batch_size = batch_size, ds_action_dim = a_dim,
                      storages =
                        map (\<lambda>(key, size).
                              (key, map (\<lambda>slot. map (\<lambda>t. mem key slot t) [0..<hd size])
                                      [0..<n_storages]))
                          sp \<rparr>,
                allocated + n_storages * length sp)))"

section \<open>The environment adapter\<close>

text \<open>
  Source: class \<^verbatim>\<open>Environment\<close> of \<^verbatim>\<open>hsuanwu/common/engine/distributed_trainer.py\<close>.

  The adapter's counters are tensors that \<^verbatim>\<open>+=\<close> updates in place and that the
  returned frames share, so they live in an explicit memory: a reference is the index of
  a cell, \<^verbatim>\<open>torch.zeros\<close> allocates a new cell. \<open>episode_return\<close> is a float32 tensor
  (\<open>+\<close> rounds to float32), \<open>episode_step\<close> an int32 tensor (a 32-bit word: \<open>+\<close>
  wraps).
\<close>

record tensor_memory =
  float_cells :: "fp list"
  int32_cells :: "32 word list"

definition new_float :: "fp \<Rightarrow> tensor_memory \<Rightarrow> nat \<times> tensor_memory" where
  "new_float x m = (length (float_cells m), m\<lparr> float_cells := float_cells m @ [x] \<rparr>)"

definition new_int32 :: "32 word \<Rightarrow> tensor_memory \<Rightarrow> nat \<times> tensor_memory" where
  "new_int32 x m = (length (int32_cells m), m\<lparr> int32_cells := int32_cells m @ [x] \<rparr>)"

text \<open>The values a frame carries, by dtype.\<close>

datatype 'o tval =
    Obs 'o
  | Float fp
  | UInt8 "8 word"
  | Int32 "32 word"
  | Int64 "64 word"

text \<open>
  The wrapped Gym environment is a parameter: a state \<open>'g\<close> with its \<^verbatim>\<open>reset\<close>
  (observation; the info dictionary is not used) and its \<^verbatim>\<open>step\<close> (observation,
  reward, terminated, truncated; the reward is a Python float). \<^verbatim>\<open>step\<close> receives the
  action tensor; taking its \<^verbatim>\<open>item()\<close> is part of the parameter. Both are taken to
  return.
\<close>

record ('g, 'o) gym =
  gym_reset :: "'g \<Rightarrow> int option \<Rightarrow> 'o \<times> 'g"
  gym_step :: "'g \<Rightarrow> 'o tval \<Rightarrow> ('o \<times> fp \<times> bool \<times> bool) \<times> 'g"

record 'g Environment =
  env :: 'g
  episode_return :: "nat option"
  episode_step :: "nat option"

text \<open>
  The dictionary that \<^verbatim>\<open>reset\<close> and \<^verbatim>\<open>step\<close> return. \<open>f_episode_return\<close> and
  \<open>f_episode_step\<close> are references: the dictionary holds the adapter's own tensors.
\<close>

record 'o env_frame =
  f_obs :: 'o
  f_reward :: fp
  f_terminated :: "8 word"
  f_truncated :: "8 word"
  f_episode_return :: nat
  f_episode_step :: nat
  f_last_action :: "'o tval"

definition Environment_init :: "'g \<Rightarrow> 'g Environment" where
  "Environment_init g = \<lparr> env = g, episode_return = None, episode_step = None \<rparr>"

definition Environment_reset ::
  "('g, 'o) gym \<Rightarrow> 'g Environment \<Rightarrow> tensor_memory \<Rightarrow> int \<Rightarrow>
   'o env_frame \<times> 'g Environment \<times> tensor_memory" where
  "Environment_reset gy self m seed =
     (case new_float (Finite 0) m of (r_ref, m1) \<Rightarrow>
      case new_int32 0 m1 of (s_ref, m2) \<Rightarrow>
      case gym_reset gy (env self) (Some seed) of (ob, g') \<Rightarrow>
        (\<lparr> f_obs = ob, f_reward = Finite 0, f_terminated = 1, f_truncated = 1,
           f_episode_return = r_ref, f_episode_step = s_ref, f_last_action = Int64 0 \<rparr>,
         self\<lparr> env := g', episode_return := Some r_ref, episode_step := Some s_ref \<rparr>,
         m2))"

text \<open>
  \<^verbatim>\<open>step\<close>: the environment is stepped; the counters are incremented in place
  (\<^verbatim>\<open>None += 1\<close> raises TypeError when \<^verbatim>\<open>reset\<close> was never called;
  \<^verbatim>\<open>episode_return += reward\<close> converts the reward to float32 and adds in float32,
  and \<^verbatim>\<open>torch.as_tensor(reward, dtype=torch.float32)\<close> converts it for the frame); the
  local names
  \<open>episode_step\<close> and \<open>episode_return\<close> are bound to the same tensors; at an episode
  boundary the environment is reset and the adapter's attributes are rebound to new zero
  tensors. \<^verbatim>\<open>torch.as_tensor(flag, dtype=torch.uint8)\<close> is 1 for True and 0 for False.
\<close>

definition Environment_step ::
  "('g, 'o) gym \<Rightarrow> 'g Environment \<Rightarrow> tensor_memory \<Rightarrow> 'o tval \<Rightarrow>
   py_error + ('o env_frame \<times> 'g Environment \<times> tensor_memory)" where
  "Environment_step gy self m action =
     (case gym_step gy (env self) action of ((ob, reward, terminated, truncated), g1) \<Rightarrow>
      case episode_step self of
        None \<Rightarrow> Inl TypeError
      | Some s_ref \<Rightarrow>
      let m1 = m\<lparr> int32_cells := (int32_cells m)[s_ref := int32_cells m ! s_ref + 1] \<rparr> in
      case episode_return self of
        None \<Rightarrow> Inl TypeError
      | Some r_ref \<Rightarrow>
      let m2 = m1\<lparr> float_cells :=
                      (float_cells m1)[r_ref := fp_add f32 (float_cells m1 ! r_ref) (cast32 reward)] \<rparr>;
          frame = (\<lambda>o'.
            \<lparr> f_obs = o', f_reward = cast32 reward,
              f_terminated = (if terminated then 1 else 0),
              f_truncated = (if truncated then 1 else 0),
              f_episode_return = r_ref, f_episode_step = s_ref, f_last_action = action \<rparr>)
      in if terminated \<or> truncated then
           (case gym_reset gy g1 None of (ob', g2) \<Rightarrow>
            case new_float (Finite 0) m2 of (r_ref', m3) \<Rightarrow>
            case new_int32 0 m3 of (s_ref', m4) \<Rightarrow>
              Inr (frame ob',
                   self\<lparr> env := g2, episode_return := Some r_ref', episode_step := Some s_ref' \<rparr>,
                   m4))
         else Inr (frame ob, self\<lparr> env := g1 \<rparr>, m2))"

text \<open>
  Reading a frame as the dictionary of its current values, in the order in which the
  source builds the dictionary.
\<close>

definition frame_items :: "tensor_memory \<Rightarrow> 'o env_frame \<Rightarrow> (string \<times> 'o tval) list" where
  "frame_items m f =
     [(''obs'', Obs (f_obs f)),
      (''reward'', Float (f_reward f)),
      (''terminated'', UInt8 (f_terminated f)),
      (''truncated'', UInt8 (f_truncated f)),
      (''episode_return'', Float (float_cells m ! f_episode_return f)),
      (''episode_step'', Int32 (int32_cells m ! f_episode_step f)),
      (''last_action'', f_last_action f)]"

section \<open>The actor\<close>

text \<open>
  Source: \<^verbatim>\<open>DistributedTrainer.act\<close> of
  \<^verbatim>\<open>hsuanwu/common/engine/distributed_trainer.py\<close>.

  The shared memory an actor writes: the \<open>storages\<close> dictionary of the
  DistributedStorage and the list \<open>init_actor_state_storages\<close>, which has for each slot
  the tuple of recurrent-state tensors. A recurrent-state tensor is the list of its
  entries along the batch dimension (one entry in the pool).
\<close>

record ('v, 'h) pool =
  shared_storages :: "'v storages"
  init_actor_state_storages :: "'h list list list"

text \<open>
  \<^verbatim>\<open>storages[key][idx][t, ...] = v\<close>: a missing key raises KeyError, a slot or a frame
  out of range raises IndexError, otherwise frame \<open>t\<close> of the slot's tensor is
  overwritten in place. The conversion of the value to the tensor's dtype is not
  modelled: the stored value is the written one.
\<close>

definition write_frame :: "'v storages \<Rightarrow> string \<Rightarrow> nat \<Rightarrow> nat \<Rightarrow> 'v \<Rightarrow> py_error + 'v storages" where
  "write_frame st key idx t v =
     (case map_of st key of
        None \<Rightarrow> Inl KeyError
      | Some slots \<Rightarrow>
          if length slots \<le> idx then Inl IndexError
          else if length (slots ! idx) \<le> t then Inl IndexError
          else Inr (AList.update key (slots[idx := (slots ! idx)[t := v]]) st))"

definition frame_at :: "'v storages \<Rightarrow> string \<Rightarrow> nat \<Rightarrow> nat \<Rightarrow> 'v option" where
  "frame_at st key idx t =
     (case map_of st key of
        None \<Rightarrow> None
      | Some slots \<Rightarrow>
          if idx < length slots \<and> t < length (slots ! idx) then Some (slots ! idx ! t)
          else None)"

text \<open>
  \<^verbatim>\<open>for key in d: storages[key][idx][t, ...] = d[key]\<close>. The result is the exception
  that ended the loop, if any, and the storages with the writes made until then.
\<close>

fun write_items ::
  "'v storages \<Rightarrow> nat \<Rightarrow> nat \<Rightarrow> (string \<times> 'v) list \<Rightarrow> py_error option \<times> 'v storages" where
  "write_items st idx t [] = (None, st)"
| "write_items st idx t ((key, v) # items) =
     (case write_frame st key idx t v of
        Inl e \<Rightarrow> (Some e, st)
      | Inr st' \<Rightarrow> write_items st' idx t items)"

text \<open>
  \<^verbatim>\<open>for i, tensor in enumerate(actor_state): init_actor_state_storages[idx][i][...] = tensor\<close>,
  from component \<open>i\<close> on.
\<close>

fun write_state ::
  "'h list list list \<Rightarrow> nat \<Rightarrow> nat \<Rightarrow> 'h list list \<Rightarrow> py_error option \<times> 'h list list list" where
  "write_state sts idx i [] = (None, sts)"
| "write_state sts idx i (tensor # rest) =
     (if length sts \<le> idx then (Some IndexError, sts)
      else if length (sts ! idx) \<le> i then (Some IndexError, sts)
      else write_state (sts[idx := (sts ! idx)[i := tensor]]) idx (i + 1) rest)"

text \<open>
  The policy is a parameter: its initial recurrent state and \<^verbatim>\<open>get_action\<close>, from the
  values of the environment's frame and the recurrent state to the output dictionary and
  the next state. It is taken to return.
\<close>

record ('o, 'h) actor_model =
  init_state :: "'h list list"
  get_action ::
    "(string \<times> 'o tval) list \<Rightarrow> 'h list list \<Rightarrow> (string \<times> 'o tval) list \<times> 'h list list"

text \<open>The local variables of \<^verbatim>\<open>act\<close>, with the memory of the adapter's tensors.\<close>

record ('g, 'o, 'h) actor =
  environment :: "'g Environment"
  memory :: tensor_memory
  env_output :: "'o env_frame"
  actor_output :: "(string \<times> 'o tval) list"
  actor_state :: "'h list list"

text \<open>The statements of \<^verbatim>\<open>act\<close> before its loop.\<close>

definition act_start ::
  "('g, 'o) gym \<Rightarrow> ('o, 'h) actor_model \<Rightarrow> 'g \<Rightarrow> int \<Rightarrow> ('g, 'o, 'h) actor" where
  "act_start gy model g seed =
     (case Environment_reset gy (Environment_init g) \<lparr> float_cells = [], int32_cells = [] \<rparr> seed of
        (out, e, m) \<Rightarrow>
          \<lparr> environment = e, memory = m, env_output = out,
            actor_output = fst (get_action model (frame_items m out) (init_state model)),
            actor_state = init_state model \<rparr>)"

text \<open>
  \<^verbatim>\<open>for t in range(cfgs.num_steps)\<close>: \<open>rollout gy model idx t n a st\<close> runs the \<open>n\<close>
  iterations from \<open>t\<close> on. An exception ends the loop; the writes made before it stay in
  the shared storages.
\<close>

fun rollout ::
  "('g, 'o) gym \<Rightarrow> ('o, 'h) actor_model \<Rightarrow> nat \<Rightarrow> nat \<Rightarrow> nat \<Rightarrow> ('g, 'o, 'h) actor \<Rightarrow>
   'o tval storages \<Rightarrow> (py_error + ('g, 'o, 'h) actor) \<times> 'o tval storages" where
  "rollout gy model idx t 0 a st = (Inr a, st)"
| "rollout gy model idx t (Suc n) a st =
     (case get_action model (frame_items (memory a) (env_output a)) (actor_state a) of
        (actor_output', actor_state') \<Rightarrow>
     (case map_of actor_output' ''action'' of
        None \<Rightarrow> (Inl KeyError, st)
      | Some action \<Rightarrow>
     (case Environment_step gy (environment a) (memory a) action of
        Inl e \<Rightarrow> (Inl e, st)
      | Inr (env_output', e', m') \<Rightarrow>
     (case write_items st idx (t + 1) (frame_items m' env_output') of
        (Some e, st1) \<Rightarrow> (Inl e, st1)
      | (None, st1) \<Rightarrow>
     (case write_items st1 idx (t + 1) actor_output' of
        (Some e, st2) \<Rightarrow> (Inl e, st2)
      | (None, st2) \<Rightarrow>
          rollout gy model idx (t + 1) n
            \<lparr> environment = e', memory = m', env_output = env_output',
              actor_output = actor_output', actor_state = actor_state' \<rparr> st2)))))"

text \<open>
  One iteration of the \<^verbatim>\<open>while True\<close> loop for a real index \<open>idx\<close>, from the
  statement after the sentinel test to the statement before \<^verbatim>\<open>full_queue.put(idx)\<close>:
  the retained outputs are written into frame 0, the recurrent state is written into the
  state storage, then the rollout runs.
\<close>

definition fill ::
  "('g, 'o) gym \<Rightarrow> ('o, 'h) actor_model \<Rightarrow> nat \<Rightarrow> nat \<Rightarrow> ('g, 'o, 'h) actor \<Rightarrow>
   ('o tval, 'h) pool \<Rightarrow> (py_error + ('g, 'o, 'h) actor) \<times> ('o tval, 'h) pool" where
  "fill gy model n_steps idx a p =
     (case write_items (shared_storages p) idx 0 (frame_items (memory a) (env_output a)) of
        (Some e, st1) \<Rightarrow> (Inl e, p\<lparr> shared_storages := st1 \<rparr>)
      | (None, st1) \<Rightarrow>
     (case write_items st1 idx 0 (actor_output a) of
        (Some e, st2) \<Rightarrow> (Inl e, p\<lparr> shared_storages := st2 \<rparr>)
      | (None, st2) \<Rightarrow>
     (case write_state (init_actor_state_storages p) idx 0 (actor_state a) of
        (Some e, sts) \<Rightarrow>
          (Inl e, \<lparr> shared_storages = st2, init_actor_state_storages = sts \<rparr>)
      | (None, sts) \<Rightarrow>
     (case rollout gy model idx 0 n_steps a st2 of
        (r, st3) \<Rightarrow> (r, \<lparr> shared_storages = st3, init_actor_state_storages = sts \<rparr>)))))"

text \<open>
  What an actor writes into a frame: the environment's output dictionary, then the
  policy's; and the value that a sequence of such writes leaves for a key (the last one
  written).
\<close>

definition outputs :: "('g, 'o, 'h) actor \<Rightarrow> (string \<times> 'o tval) list" where
  "outputs a = frame_items (memory a) (env_output a) @ actor_output a"

definition last_written :: "(string \<times> 'v) list \<Rightarrow> string \<Rightarrow> 'v option" where
  "last_written items key = map_of (rev items) key"

section \<open>DistributedStorage.sample\<close>

text \<open>\<^verbatim>\<open>[xs[i] for i in indices]\<close>.\<close>

definition select_slots :: "'x list \<Rightarrow> nat list \<Rightarrow> py_error + 'x list" where
  "select_slots xs indices =
     (if list_all (\<lambda>i. i < length xs) indices then Inr (map (\<lambda>i. xs ! i) indices)
      else Inl IndexError)"

text \<open>
  \<^verbatim>\<open>torch.stack(tensors, dim=1)\<close> returns a new tensor: frame \<open>t\<close> of the result is
  the list of the frames \<open>t\<close> of the arguments. It raises RuntimeError on an empty list
  and on tensors of different sizes.
\<close>

definition stack_dim1 :: "'v list list \<Rightarrow> py_error + 'v list list" where
  "stack_dim1 tensors =
     (case tensors of
        [] \<Rightarrow> Inl RuntimeError
      | t0 # _ \<Rightarrow>
          if list_all (\<lambda>t. length t = length t0) tensors
          then Inr (map (\<lambda>i. map (\<lambda>t. t ! i) tensors) [0..<length t0])
          else Inl RuntimeError)"

text \<open>The dictionary comprehension that builds \<open>batch\<close>.\<close>

fun stack_batch :: "'v storages \<Rightarrow> nat list \<Rightarrow> py_error + (string \<times> 'v list list) list" where
  "stack_batch [] indices = Inr []"
| "stack_batch ((key, slots) # rest) indices =
     bind_err (select_slots slots indices) (\<lambda>tensors.
     bind_err (stack_dim1 tensors) (\<lambda>b.
     bind_err (stack_batch rest indices) (\<lambda>bs. Inr ((key, b) # bs))))"

text \<open>
  \<open>init_actor_states\<close> is a generator expression. Python evaluates its outermost
  iterable, \<^verbatim>\<open>zip(*[init_actor_state_storages[i] for i in indices])\<close>, when the
  expression is created, and each \<^verbatim>\<open>torch.cat(ts, dim=1)\<close> only when the generator is
  consumed. What \<^verbatim>\<open>sample\<close> returns therefore holds the state tensors of the slots
  \<open>indices\<close> themselves: it is modelled by those slot indices, and consuming it reads
  the state storage as it is then. \<^verbatim>\<open>zip(*xss)\<close> stops at the shortest list.
\<close>

datatype state_generator = StateGenerator "nat list"

function zip_star :: "'x list list \<Rightarrow> 'x list list" where
  "zip_star xss =
     (if xss = [] \<or> [] \<in> set xss then []
      else map hd xss # zip_star (map tl xss))"
  by pat_completeness auto
termination
proof (relation "measure (\<lambda>xss. length (hd xss))")
  show "wf (measure (\<lambda>xss. length (hd xss)))" by simp
next
  fix xss :: "'x list list"
  assume "\<not> (xss = [] \<or> [] \<in> set xss)"
  then have "xss \<noteq> []" and "hd xss \<in> set xss" and "[] \<notin> set xss"
    by simp_all
  then have "xss \<noteq> []" and "hd xss \<noteq> []"
    by metis+
  then show "(map tl xss, xss) \<in> measure (\<lambda>xss. length (hd xss))"
    by (simp add: hd_map)
qed

declare zip_star.simps [simp del]

definition consume :: "state_generator \<Rightarrow> 'h list list list \<Rightarrow> 'h list list" where
  "consume gen sts =
     (case gen of StateGenerator indices \<Rightarrow>
        map concat (zip_star (map (\<lambda>i. sts ! i) indices)))"

text \<open>
  \<^verbatim>\<open>sample\<close>, run with no other thread taking from the queues: \<open>None\<close> when
  \<^verbatim>\<open>full_queue.get()\<close> blocks for ever because fewer than \<open>batch_size\<close> indices are
  there; otherwise the result (an exception, or the batch and the state generator) and
  the two queues afterwards. An exception leaves the dequeued indices on neither queue.
  The final \<^verbatim>\<open>tensor.to(device)\<close> returns the tensor or a copy of it.
\<close>

definition sample ::
  "nat \<Rightarrow> nat option list \<Rightarrow> nat list \<Rightarrow> ('v, 'h) pool \<Rightarrow>
   ((py_error + (string \<times> 'v list list) list \<times> state_generator)
      \<times> nat option list \<times> nat list) option" where
  "sample batch_size free_queue full_queue p =
     (if length full_queue < batch_size then None
      else
        let indices = take batch_size full_queue;
            full_queue' = drop batch_size full_queue
        in Some
          (case stack_batch (shared_storages p) indices of
             Inl e \<Rightarrow> (Inl e, free_queue, full_queue')
           | Inr batch \<Rightarrow>
               (case select_slots (init_actor_state_storages p) indices of
                  Inl e \<Rightarrow> (Inl e, free_queue, full_queue')
                | Inr held \<Rightarrow>
                    (Inr (batch, StateGenerator indices),
                     free_queue @ map Some indices, full_queue'))))"

section \<open>The actor-learner system\<close>

text \<open>
  The processes that share the two queues and the pool: the actors running
  \<^verbatim>\<open>act\<close>, the learner threads running \<^verbatim>\<open>sample\<close>, and the trainer putting
  sentinels. Each has a control state; an event is one step of one of them, and a run is
  a list of events in the order in which they happen. A step that would block (a
  \<^verbatim>\<open>get\<close> on an empty queue, the lock held by another thread) leaves the state as it
  is.
\<close>

datatype worker_pc =
    Claiming
  | Filling nat
  | Publishing nat
  | Stopped
  | Faulted nat py_error

datatype learner_pc =
    Idle
  | Getting "nat list"
  | Stacking "nat list"
  | Putting "nat list" nat
  | Failed "nat list" py_error

record ('g, 'o, 'h) system =
  free_queue :: "nat option list"
  full_queue :: "nat list"
  shared :: "('o tval, 'h) pool"
  workers :: "(worker_pc \<times> ('g, 'o, 'h) actor) list"
  learners :: "learner_pc list"
  lock :: bool

record ('g, 'o, 'h) config =
  cfg_gym :: "('g, 'o) gym"
  cfg_model :: "('o, 'h) actor_model"
  cfg_num_steps :: nat
  cfg_batch_size :: nat

datatype event = WorkerStep nat | LearnerStep nat | PutSentinel

text \<open>
  A step of actor \<open>w\<close>. \<open>Claiming\<close>: \<^verbatim>\<open>idx = free_queue.get()\<close>; the sentinel
  \<open>None\<close> leaves the loop, and the function returns. \<open>Filling idx\<close>: the body of the
  loop up to the rollout's end; an exception is re-raised and ends the process, which
  never puts \<open>idx\<close> on a queue again. \<open>Publishing idx\<close>: \<^verbatim>\<open>full_queue.put(idx)\<close>.
  A process that has returned or died takes no step. A KeyboardInterrupt, on which
  \<^verbatim>\<open>act\<close> returns silently, comes from outside and is no event of the model.
\<close>

definition worker_step ::
  "('g, 'o, 'h) config \<Rightarrow> nat \<Rightarrow> ('g, 'o, 'h) system \<Rightarrow> ('g, 'o, 'h) system" where
  "worker_step cfg w s =
     (if length (workers s) \<le> w then s
      else case workers s ! w of (pc, a) \<Rightarrow>
        (case pc of
           Claiming \<Rightarrow>
             (case free_queue s of
                [] \<Rightarrow> s
              | None # rest \<Rightarrow>
                  s\<lparr> free_queue := rest, workers := (workers s)[w := (Stopped, a)] \<rparr>
              | Some idx # rest \<Rightarrow>
                  s\<lparr> free_queue := rest, workers := (workers s)[w := (Filling idx, a)] \<rparr>)
         | Filling idx \<Rightarrow>
             (case fill (cfg_gym cfg) (cfg_model cfg) (cfg_num_steps cfg) idx a (shared s) of
                (Inl e, p) \<Rightarrow>
                  s\<lparr> shared := p, workers := (workers s)[w := (Faulted idx e, a)] \<rparr>
              | (Inr a', p) \<Rightarrow>
                  s\<lparr> shared := p, workers := (workers s)[w := (Publishing idx, a')] \<rparr>)
         | Publishing idx \<Rightarrow>
             s\<lparr> full_queue := full_queue s @ [idx],
                workers := (workers s)[w := (Claiming, a)] \<rparr>
         | Stopped \<Rightarrow> s
         | Faulted idx e \<Rightarrow> s))"

text \<open>
  A step of learner thread \<open>l\<close> inside \<^verbatim>\<open>sample\<close>. \<open>Idle\<close>: enter \<^verbatim>\<open>with lock\<close>.
  \<open>Getting indices\<close>: one more \<^verbatim>\<open>full_queue.get()\<close>, or, with \<open>batch_size\<close> indices,
  leave the \<^verbatim>\<open>with\<close> block. \<open>Stacking indices\<close>: the statements between the
  \<^verbatim>\<open>with\<close> block and the \<^verbatim>\<open>put\<close> loop, which read the pool as it is then and change
  nothing that is shared; when \<^verbatim>\<open>torch.stack\<close> or the indexing of the state storages
  raises, the exception ends the thread, which never puts \<open>indices\<close> on a queue again.
  \<open>Putting indices k\<close>: \<^verbatim>\<open>free_queue.put\<close> of the \<open>k\<close>-th index, or, after the last,
  return to the caller, which calls \<^verbatim>\<open>sample\<close> again. A thread that has died takes no
  step.
\<close>

definition learner_step ::
  "('g, 'o, 'h) config \<Rightarrow> nat \<Rightarrow> ('g, 'o, 'h) system \<Rightarrow> ('g, 'o, 'h) system" where
  "learner_step cfg l s =
     (if length (learners s) \<le> l then s
      else case learners s ! l of
        Idle \<Rightarrow>
          if lock s then s
          else s\<lparr> lock := True, learners := (learners s)[l := Getting []] \<rparr>
      | Getting indices \<Rightarrow>
          if length indices < cfg_batch_size cfg then
            (case full_queue s of
               [] \<Rightarrow> s
             | idx # rest \<Rightarrow>
                 s\<lparr> full_queue := rest,
                    learners := (learners s)[l := Getting (indices @ [idx])] \<rparr>)
          else s\<lparr> lock := False, learners := (learners s)[l := Stacking indices] \<rparr>
      | Stacking indices \<Rightarrow>
          (case stack_batch (shared_storages (shared s)) indices of
             Inl e \<Rightarrow> s\<lparr> learners := (learners s)[l := Failed indices e] \<rparr>
           | Inr batch \<Rightarrow>
               (case select_slots (init_actor_state_storages (shared s)) indices of
                  Inl e \<Rightarrow> s\<lparr> learners := (learners s)[l := Failed indices e] \<rparr>
                | Inr held \<Rightarrow> s\<lparr> learners := (learners s)[l := Putting indices 0] \<rparr>))
      | Putting indices k \<Rightarrow>
          if k < length indices then
            s\<lparr> free_queue := free_queue s @ [Some (indices ! k)],
               learners := (learners s)[l := Putting indices (k + 1)] \<rparr>
          else s\<lparr> learners := (learners s)[l := Idle] \<rparr>
      | Failed indices e \<Rightarrow> s)"

definition system_step ::
  "('g, 'o, 'h) config \<Rightarrow> event \<Rightarrow> ('g, 'o, 'h) system \<Rightarrow> ('g, 'o, 'h) system" where
  "system_step cfg ev s =
     (case ev of
        WorkerStep w \<Rightarrow> worker_step cfg w s
      | LearnerStep l \<Rightarrow> learner_step cfg l s
      | PutSentinel \<Rightarrow> s\<lparr> free_queue := free_queue s @ [None] \<rparr>)"

fun exec ::
  "('g, 'o, 'h) config \<Rightarrow> event list \<Rightarrow> ('g, 'o, 'h) system \<Rightarrow> ('g, 'o, 'h) system" where
  "exec cfg [] s = s"
| "exec cfg (ev # evs) s = exec cfg evs (system_step cfg ev s)"

text \<open>
  The state in which \<^verbatim>\<open>train\<close> has put every slot index once onto the free queue, no
  actor has taken one yet and no learner is inside \<^verbatim>\<open>sample\<close>.
\<close>

definition initial ::
  "nat \<Rightarrow> ('o tval, 'h) pool \<Rightarrow> ('g, 'o, 'h) actor list \<Rightarrow> nat \<Rightarrow> ('g, 'o, 'h) system" where
  "initial n_storages p actors n_learners =
     \<lparr> free_queue = map Some [0..<n_storages], full_queue = [], shared = p,
       workers = map (\<lambda>a. (Claiming, a)) actors,
       learners = replicate n_learners Idle, lock = False \<rparr>"

text \<open>
  Where the slot indices are: on the free queue (next to the sentinels), on the full
  queue, held by an actor between its \<^verbatim>\<open>get\<close> and its \<^verbatim>\<open>put\<close>, held by a learner
  between its \<^verbatim>\<open>get\<close> and its \<^verbatim>\<open>put\<close> of that index, or left behind by an actor
  or a learner thread that died.
\<close>

definition free_indices :: "nat option list \<Rightarrow> nat list" where
  "free_indices q = concat (map (\<lambda>x. case x of None \<Rightarrow> [] | Some i \<Rightarrow> [i]) q)"

definition worker_held :: "worker_pc \<Rightarrow> nat list" where
  "worker_held pc = (case pc of Filling i \<Rightarrow> [i] | Publishing i \<Rightarrow> [i] | _ \<Rightarrow> [])"

definition worker_abandoned :: "worker_pc \<Rightarrow> nat list" where
  "worker_abandoned pc = (case pc of Faulted i e \<Rightarrow> [i] | _ \<Rightarrow> [])"

definition learner_held :: "learner_pc \<Rightarrow> nat list" where
  "learner_held pc =
     (case pc of
        Getting indices \<Rightarrow> indices
      | Stacking indices \<Rightarrow> indices
      | Putting indices k \<Rightarrow> drop k indices
      | _ \<Rightarrow> [])"

definition learner_abandoned :: "learner_pc \<Rightarrow> nat list" where
  "learner_abandoned pc = (case pc of Failed indices e \<Rightarrow> indices | _ \<Rightarrow> [])"

definition in_flight :: "('g, 'o, 'h) system \<Rightarrow> nat list" where
  "in_flight s =
     concat (map (\<lambda>w. worker_held (fst w)) (workers s)) @ concat (map learner_held (learners s))"

definition abandoned :: "('g, 'o, 'h) system \<Rightarrow> nat list" where
  "abandoned s =
     concat (map (\<lambda>w. worker_abandoned (fst w)) (workers s))
       @ concat (map learner_abandoned (learners s))"

text \<open>The multiset of all slot indices of a state, wherever they are.\<close>

definition tokens :: "('g, 'o, 'h) system \<Rightarrow> nat multiset" where
  "tokens s = mset (free_indices (free_queue s)) + mset (full_queue s)
     + mset (concat (map (\<lambda>w. worker_held (fst w)) (workers s)))
     + mset (concat (map learner_held (learners s)))
     + mset (concat (map (\<lambda>w. worker_abandoned (fst w)) (workers s)))
     + mset (concat (map learner_abandoned (learners s)))"

section \<open>Examples\<close>

text \<open>
  A Gym environment to evaluate the model on: its state counts the steps of the episode,
  the observation is that count, every step pays reward 1 and the second step of an
  episode terminates it.
\<close>

definition counting_gym :: "(nat, nat) gym" where
  "counting_gym =
     \<lparr> gym_reset = (\<lambda>g seed. (0, 0)),
       gym_step = (\<lambda>g action. ((g + 1, Finite 1, 2 \<le> g + 1, False), g + 1)) \<rparr>"

text \<open>
  A policy, a pool of two slots of one step each as the constructor allocates it (the
  memory happens to hold zeros), and a system of one actor and one learner on them.
\<close>

definition constant_model :: "(nat, nat) actor_model" where
  "constant_model =
     \<lparr> init_state = [[0]],
       get_action = (\<lambda>items state.
         ([(''policy_logits'', Float (Finite 0)), (''baseline'', Float (Finite 0)),
           (''action'', Int64 0)],
          map (map Suc) state)) \<rparr>"

definition small_pool :: "(nat tval, nat) pool" where
  "small_pool =
     \<lparr> shared_storages =
         storages (projr (fst (DistributedStorage_init (\<lambda>key slot t. Float (Finite 0)) [1] [2]
           ''Discrete'' 1 2 1 0))),
       init_actor_state_storages = [[[0]], [[0]]] \<rparr>"

definition small_config :: "(nat, nat, nat) config" where
  "small_config =
     \<lparr> cfg_gym = counting_gym, cfg_model = constant_model, cfg_num_steps = 1,
       cfg_batch_size = 1 \<rparr>"

definition small_system :: "(nat, nat, nat) system" where
  "small_system = initial 2 small_pool [act_start counting_gym constant_model 0 0] 1"

text \<open>
  The same actor and learner with slot 0 alone in circulation, and the state in which
  the actor has just claimed it.
\<close>

definition single_slot_system :: "(nat, nat, nat) system" where
  "single_slot_system = initial 1 small_pool [act_start counting_gym constant_model 0 0] 1"

definition claimed_system :: "(nat, nat, nat) system" where
  "claimed_system = system_step small_config (WorkerStep 0) single_slot_system"

text \<open>
  The pool and the actor after that actor has filled slot 0 once: the state in which the
  index 0 goes onto the full queue and a learner samples it.
\<close>

definition filled_pool :: "(nat tval, nat) pool" where
  "filled_pool = shared (system_step small_config (WorkerStep 0) claimed_system)"

definition filled_actor :: "(nat, nat, nat) actor" where
  "filled_actor = snd (workers (system_step small_config (WorkerStep 0) claimed_system) ! 0)"

text \<open>The same system with a sentinel at the head of the free queue.\<close>

definition sentinel_system :: "(nat, nat, nat) system" where
  "sentinel_system = small_system\<lparr> free_queue := [None, Some 0, Some 1] \<rparr>"

text \<open>
  A policy whose output dictionary has no \<^verbatim>\<open>action\<close> entry, so that
  \<^verbatim>\<open>actor_output["action"]\<close> raises KeyError in the rollout, and the system of one
  actor with that policy and one learner, with slot 0 alone in circulation.
\<close>

definition mute_model :: "(nat, nat) actor_model" where
  "mute_model =
     \<lparr> init_state = [[0]],
       get_action = (\<lambda>items state. ([(''baseline'', Float (Finite 0))], state)) \<rparr>"

definition mute_config :: "(nat, nat, nat) config" where
  "mute_config =
     \<lparr> cfg_gym = counting_gym, cfg_model = mute_model, cfg_num_steps = 1,
       cfg_batch_size = 1 \<rparr>"

definition mute_system :: "(nat, nat, nat) system" where
  "mute_system = initial 1 small_pool [act_start counting_gym mute_model 0 0] 1"

text \<open>
  An adapter in the middle of an episode whose return so far is \<open>2 ^ 24 = 16777216\<close>,
  after 7 steps, on the counting environment (whose next step pays reward 1 and ends
  the episode).
\<close>

definition late_environment :: "nat Environment" where
  "late_environment = \<lparr> env = 1, episode_return = Some 0, episode_step = Some 0 \<rparr>"

definition late_memory :: tensor_memory where
  "late_memory = \<lparr> float_cells = [Finite 16777216], int32_cells = [7] \<rparr>"

text \<open>
  Reductions that add exactly and round the result once to float32; the standard
  deviation is the unbiased one (torch's default), NaN for fewer than two entries, and
  the mean of no entry is NaN.
\<close>

definition exact_sum :: "fp list \<Rightarrow> fp" where
  "exact_sum xs = foldr (fp_add Finite) xs (Finite 0)"

definition exact_mean :: "fp list \<Rightarrow> fp" where
  "exact_mean xs = fp_div Finite (exact_sum xs) (Finite (real (length xs)))"

definition exact_std :: "fp list \<Rightarrow> fp" where
  "exact_std xs =
     (if length xs \<le> 1 then NaN
      else fp_sqrt Finite
        (fp_div Finite
           (exact_sum (map (\<lambda>x. fp_mul Finite (fp_sub Finite x (exact_mean xs))
                                    (fp_sub Finite x (exact_mean xs))) xs))
           (Finite (real (length xs - 1)))))"

definition exact_reductions :: reductions where
  "exact_reductions =
     \<lparr> tensor_mean = (\<lambda>xs. cast32 (exact_mean xs)),
       tensor_std = (\<lambda>xs. cast32 (exact_std xs)) \<rparr>"

text \<open>
  A storage of one step of two environments whose final frame is terminal, with the
  numbers of the specification's example: reward 1.0, value 0.5, discount 0.99, lambda 0.95
  (the Python floats nearest to these decimals).
\<close>

definition terminal_storage :: "(nat, nat) vanilla_rollout_storage" where
  "terminal_storage =
     \<lparr> num_steps = 1, num_envs = 2, discount = f64 (99 / 100), gae_lambda = f64 (95 / 100),
       action_dim = 1,
       obs = [[0, 0]],
       actions = [[0, 0]],
       rewards = [[Finite 1, Finite 1]],
       terminateds = [[Finite 0, Finite 0], [Finite 1, Finite 1]],
       truncateds = [[Finite 0, Finite 0], [Finite 0, Finite 0]],
       log_probs = [[Finite 0, Finite 0]],
       values_buf = [[Finite (1 / 2), Finite (1 / 2)]],
       returns = [[NaN, NaN]],
       advantages = [[NaN, NaN]],
       global_step = 0 \<rparr>"

text \<open>
  Memory that happens to hold zeros (NaN in the derived buffers), and two \<^verbatim>\<open>add\<close> calls
  for one environment: observations 10 and 20; the second step ends the episode.
\<close>

definition zero_memory :: "(nat, nat) uninitialised" where
  "zero_memory =
     \<lparr> obs_mem = (\<lambda>_ _. 0), actions_mem = (\<lambda>_ _. 0), rewards_mem = (\<lambda>_ _. Finite 0),
       terminateds_mem = (\<lambda>_ _. Finite 0), truncateds_mem = (\<lambda>_ _. Finite 0),
       log_probs_mem = (\<lambda>_ _. Finite 0), values_mem = (\<lambda>_ _. Finite 0),
       returns_mem = (\<lambda>_ _. NaN), advantages_mem = (\<lambda>_ _. NaN) \<rparr>"

definition first_add :: "(nat, nat) transition" where
  "first_add =
     \<lparr> t_obs = [10], t_actions = [0], t_rewards = [Finite 0], t_terminateds = [Finite 0],
       t_truncateds = [Finite 0], t_log_probs = [Finite 0], t_values = [Finite 0] \<rparr>"

definition second_add :: "(nat, nat) transition" where
  "second_add =
     \<lparr> t_obs = [20], t_actions = [1], t_rewards = [Finite 1], t_terminateds = [Finite 1],
       t_truncateds = [Finite 1], t_log_probs = [Finite 0], t_values = [Finite 0] \<rparr>"

text \<open>
  A storage of two steps of one environment as \<^verbatim>\<open>__init__\<close> leaves it, and one fill
  cycle on it: construction, two \<^verbatim>\<open>add\<close> calls, \<^verbatim>\<open>reset\<close>.
\<close>

definition two_step_storage :: "(nat, nat) vanilla_rollout_storage" where
  "two_step_storage =
     projr (VanillaRolloutStorage_init zero_memory [2] ''Discrete'' 2 1
       (f64 (99 / 100)) (f64 (95 / 100)))"

definition two_step_cycle :: "py_error + (nat, nat) vanilla_rollout_storage" where
  "two_step_cycle =
     bind_err (VanillaRolloutStorage_init zero_memory [2] ''Discrete'' 2 1
                 (f64 (99 / 100)) (f64 (95 / 100)))
       (\<lambda>s. bind_err (add_all s [first_add, second_add]) reset)"

text \<open>A storage of five steps of one environment, used to evaluate the model.\<close>

definition example_storage :: "(nat, nat) vanilla_rollout_storage" where
  "example_storage =
     \<lparr> num_steps = 5, num_envs = 1, discount = f64 (99 / 100), gae_lambda = f64 (95 / 100),
       action_dim = 1,
       obs = [[0], [1], [2], [3], [4]],
       actions = [[0], [0], [0], [0], [0]],
       rewards = [[Finite 1], [Finite 1], [Finite 1], [Finite 1], [Finite 1]],
       terminateds = [[Finite 0], [Finite 0], [Finite 0], [Finite 0], [Finite 0], [Finite 1]],
       truncateds = [[Finite 0], [Finite 0], [Finite 0], [Finite 0], [Finite 0], [Finite 0]],
       log_probs = [[Finite 0], [Finite 0], [Finite 0], [Finite 0], [Finite 0]],
       values_buf = [[Finite (1 / 2)], [Finite (1 / 2)], [Finite (1 / 2)], [Finite (1 / 2)],
                     [Finite (1 / 2)]],
       returns = [[NaN], [NaN], [NaN], [NaN], [NaN]],
       advantages = [[NaN], [NaN], [NaN], [NaN], [NaN]],
       global_step = 0 \<rparr>"

section \<open>Properties of the floating-point operations\<close>

text \<open>
  Rounding is the identity on the numbers of the format, the result of a rounding is a
  number of the format, and a bound by a power of two or by a number of the format
  survives rounding.
\<close>

lemma round_half_even_of_int [simp]: "round_half_even (of_int k) = k"
  by (simp add: round_half_even_def)

lemma round_half_even_bounds:
  "\<lfloor>y\<rfloor> \<le> round_half_even y" "round_half_even y \<le> \<lceil>y\<rceil>"
proof -
  show "\<lfloor>y\<rfloor> \<le> round_half_even y"
    by (simp add: round_half_even_def Let_def)
  show "round_half_even y \<le> \<lceil>y\<rceil>"
  proof (cases "y = of_int \<lfloor>y\<rfloor>")
    case True
    then show ?thesis by (metis round_half_even_of_int ceiling_of_int order_refl)
  next
    case False
    then have "\<lceil>y\<rceil> = \<lfloor>y\<rfloor> + 1"
      by (metis ceiling_altdef)
    then show ?thesis by (simp add: round_half_even_def Let_def)
  qed
qed

lemma round_half_even_abs_le:
  assumes "\<bar>y\<bar> \<le> of_int n"
  shows "\<bar>round_half_even y\<bar> \<le> n"
proof -
  from assms have "- of_int n \<le> y" "y \<le> of_int n" by linarith+
  then have "- n \<le> \<lfloor>y\<rfloor>" "\<lceil>y\<rceil> \<le> n"
    by (simp_all add: le_floor_iff ceiling_le_iff)
  with round_half_even_bounds [of y] show ?thesis by linarith
qed


lemma binade:
  assumes "x \<noteq> 0"
  shows "2 powr of_int \<lfloor>log 2 \<bar>x\<bar>\<rfloor> \<le> \<bar>x\<bar>" "\<bar>x\<bar> < 2 powr of_int (\<lfloor>log 2 \<bar>x\<bar>\<rfloor> + 1)"
  using assms floor_log_eq_powr_iff [of "\<bar>x\<bar>" 2 "\<lfloor>log 2 \<bar>x\<bar>\<rfloor>"] by simp_all

lemma two_powr_nonneg_int:
  assumes "0 \<le> d"
  shows "(2 :: real) powr of_int d = of_int (2 ^ nat d)"
  using assms by (simp add: powr_real_of_int)

lemma round_to_scaled_int:
  assumes "x \<noteq> 0" and "x / 2 powr of_int (max \<lfloor>log 2 \<bar>x\<bar>\<rfloor> emin - int p + 1) = of_int j"
  shows "round_to p emin x = x"
proof -
  let ?q = "2 powr of_int (max \<lfloor>log 2 \<bar>x\<bar>\<rfloor> emin - int p + 1) :: real"
  have q: "0 < ?q" by simp
  have "round_to p emin x = of_int (round_half_even (x / ?q)) * ?q"
    using assms(1) by (simp add: round_to_def Let_def)
  also have "\<dots> = of_int j * ?q" unfolding assms(2) by simp
  also have "\<dots> = x" using assms(2) q by (simp add: field_simps)
  finally show ?thesis .
qed

lemma round_to_multiple:
  assumes x: "x = of_int m * 2 powr of_int k" and m: "\<bar>m\<bar> \<le> 2 ^ p" and k: "emin - int p + 1 \<le> k"
    and p: "0 < p"
  shows "round_to p emin x = x"
proof (cases "x = 0")
  case True
  then show ?thesis by (simp add: round_to_def)
next
  case False
  let ?b = "\<lfloor>log 2 \<bar>x\<bar>\<rfloor>"
  let ?e = "max ?b emin"
  have absx: "\<bar>x\<bar> = of_int \<bar>m\<bar> * 2 powr of_int k"
    unfolding x by (simp add: abs_mult)
  have "of_int \<bar>m\<bar> \<le> (2 :: real) ^ p"
    using m by (metis of_int_le_iff of_int_numeral of_int_power)
  then have "\<bar>x\<bar> \<le> 2 ^ p * 2 powr of_int k"
    unfolding absx by (simp add: mult_right_mono)
  also have "\<dots> = 2 powr of_int (int p + k)"
    by (simp add: powr_add powr_realpow)
  finally have ub: "\<bar>x\<bar> \<le> 2 powr of_int (int p + k)" .
  with binade(1) [OF False] have "2 powr of_int ?b \<le> (2 :: real) powr of_int (int p + k)"
    by linarith
  then have e0: "?b \<le> int p + k" by simp
  show ?thesis
  proof (cases "?b = int p + k")
    case True
    with binade(1) [OF False] ub have "\<bar>x\<bar> = 2 powr of_int (int p + k)" by simp
    also have "\<dots> = 2 ^ p * 2 powr of_int k" by (simp add: powr_add powr_realpow)
    finally have "of_int \<bar>m\<bar> = (2 :: real) ^ p" unfolding absx by simp
    then have am: "\<bar>m\<bar> = 2 ^ p"
      by (metis of_int_eq_iff of_int_numeral of_int_power)
    from p obtain p' where p': "p = Suc p'" by (cases p) auto
    have e: "?e = int p + k" using True k by simp
    have qe: "?e - int p + 1 = k + 1" using e by simp
    have "x / 2 powr of_int (?e - int p + 1) = x / 2 powr of_int (k + 1)"
      by (simp only: qe)
    also have "\<dots> = of_int m * 2 powr of_int k / 2 powr of_int (k + 1)"
      by (subst x) (rule refl)
    also have "\<dots> = of_int m / 2"
      by (simp add: powr_add)
    also have "\<dots> = of_int (m div 2)"
    proof -
      from am p' have "even m"
        by (metis abs_minus_cancel dvd_minus_iff even_abs_add_iff even_numeral even_power
            zero_less_Suc abs_of_nonneg abs_of_nonpos linear)
      then show ?thesis by (simp add: real_of_int_div)
    qed
    finally show ?thesis by (rule round_to_scaled_int [OF False])
  next
    case ne: False
    with e0 k have d: "0 \<le> k - (?e - int p + 1)" by simp
    have "x / 2 powr of_int (?e - int p + 1)
        = of_int m * 2 powr (of_int k - of_int (?e - int p + 1))"
      unfolding x by (simp add: powr_diff)
    also have "\<dots> = of_int m * 2 powr of_int (k - (?e - int p + 1))"
      by simp
    also have "\<dots> = of_int (m * 2 ^ nat (k - (?e - int p + 1)))"
      unfolding two_powr_nonneg_int [OF d] by simp
    finally show ?thesis by (rule round_to_scaled_int [OF False])
  qed
qed

lemma round_to_shape:
  assumes "x \<noteq> 0"
  shows "\<exists>j. round_to p emin x = of_int j * 2 powr of_int (max \<lfloor>log 2 \<bar>x\<bar>\<rfloor> emin - int p + 1) \<and>
    \<bar>j\<bar> \<le> 2 ^ p"
proof -
  let ?b = "\<lfloor>log 2 \<bar>x\<bar>\<rfloor>"
  let ?e = "max ?b emin"
  let ?q = "2 powr of_int (?e - int p + 1) :: real"
  have q: "0 < ?q" by simp
  have "\<bar>x\<bar> / ?q < 2 powr of_int (?b + 1) / ?q"
    using binade(2) [OF assms] q by (rule divide_strict_right_mono)
  also have "\<dots> = 2 powr (of_int (?b + 1) - of_int (?e - int p + 1))"
    by (simp only: powr_diff)
  also have "\<dots> \<le> 2 powr of_int (int p)"
    by (intro powr_mono) simp_all
  also have "\<dots> = of_int (2 ^ p)"
    by (simp add: powr_realpow)
  finally have "\<bar>x / ?q\<bar> \<le> of_int (2 ^ p)" by (simp add: abs_divide)
  then have "\<bar>round_half_even (x / ?q)\<bar> \<le> 2 ^ p"
    by (rule round_half_even_abs_le)
  moreover have "round_to p emin x = of_int (round_half_even (x / ?q)) * ?q"
    using assms by (simp add: round_to_def Let_def)
  ultimately show ?thesis by blast
qed

lemma round_to_idem:
  assumes "0 < p"
  shows "round_to p emin (round_to p emin x) = round_to p emin x"
proof (cases "x = 0")
  case True
  then show ?thesis by (simp add: round_to_def)
next
  case False
  from round_to_shape [OF False, of p emin] obtain j where
      j: "round_to p emin x = of_int j * 2 powr of_int (max \<lfloor>log 2 \<bar>x\<bar>\<rfloor> emin - int p + 1)"
      and b: "\<bar>j\<bar> \<le> 2 ^ p"
    by blast
  show ?thesis
    by (rule round_to_multiple [OF j b _ assms]) simp
qed

lemma round_to_abs_le:
  assumes "\<bar>x\<bar> < 2 powr of_int K" and "emin < K"
  shows "\<bar>round_to p emin x\<bar> \<le> 2 powr of_int K"
proof (cases "x = 0")
  case True
  then show ?thesis by (simp add: round_to_def)
next
  case False
  let ?b = "\<lfloor>log 2 \<bar>x\<bar>\<rfloor>"
  let ?e = "max ?b emin"
  from round_to_shape [OF False, of p emin] obtain j where
      j: "round_to p emin x = of_int j * 2 powr of_int (?e - int p + 1)"
      and b: "\<bar>j\<bar> \<le> 2 ^ p"
    by blast
  from binade(1) [OF False] assms(1) have "2 powr of_int ?b < (2 :: real) powr of_int K"
    by linarith
  then have "?b < K" by simp
  with assms(2) have e: "?e + 1 \<le> K" by simp
  have "of_int \<bar>j\<bar> \<le> (2 :: real) ^ p"
    using b by (metis of_int_le_iff of_int_numeral of_int_power)
  then have "\<bar>round_to p emin x\<bar> \<le> 2 ^ p * 2 powr of_int (?e - int p + 1)"
    unfolding j by (simp add: abs_mult mult_right_mono)
  also have "\<dots> = 2 powr (of_int (int p) + of_int (?e - int p + 1))"
    by (simp only: powr_add) (simp add: powr_realpow)
  also have "\<dots> = 2 powr of_int (?e + 1)"
    by simp
  also have "\<dots> \<le> 2 powr of_int K"
    using e by simp
  finally show ?thesis .
qed


lemma to_fp_0 [simp]: "to_fp p emin emax 0 = Finite 0"
  by (simp add: to_fp_def round_to_def)

lemma f32_0 [simp]: "f32 0 = Finite 0" and f64_0 [simp]: "f64 0 = Finite 0"
  by (simp_all add: f32_def f64_def)

lemma to_fp_multiple:
  assumes "x = of_int m * 2 powr of_int k" and "\<bar>m\<bar> \<le> 2 ^ p" and "emin - int p + 1 \<le> k"
    and "0 < p" and "\<bar>x\<bar> < 2 powr of_int (emax + 1)"
  shows "to_fp p emin emax x = Finite x"
  using assms(5) by (simp add: to_fp_def round_to_multiple [OF assms(1-4)])

lemma f32_int:
  assumes "\<bar>n\<bar> \<le> 2 ^ 24"
  shows "f32 (of_int n) = Finite (of_int n)"
proof -
  have "\<bar>real_of_int n\<bar> \<le> 2 ^ 24"
    using assms by (metis of_int_abs of_int_le_iff of_int_numeral of_int_power)
  also have "\<dots> < 2 powr of_int (127 + 1)" by simp
  finally have b: "\<bar>real_of_int n\<bar> < 2 powr of_int (127 + 1)" .
  show ?thesis
    unfolding f32_def
    by (rule to_fp_multiple [where m = n and k = 0]) (use assms b in simp_all)
qed

lemma f32_numerals [simp]:
  "f32 1 = Finite 1" "f32 2 = Finite 2" "f32 (- 1) = Finite (- 1)"
  using f32_int [of 1] f32_int [of 2] f32_int [of "- 1"] by simp_all

lemma f32_half [simp]: "f32 (1 / 2) = Finite (1 / 2)"
proof -
  have "f32 (of_int 1 * 2 powr of_int (- 1)) = Finite (of_int 1 * 2 powr of_int (- 1))"
    unfolding f32_def
    by (rule to_fp_multiple [where m = 1 and k = "- 1"]) (simp_all add: powr_minus_divide)
  then show ?thesis by (simp add: powr_minus_divide)
qed

lemma to_fp_idem:
  assumes "to_fp p emin emax x = Finite y" and "0 < p"
  shows "to_fp p emin emax y = Finite y"
proof -
  from assms(1) have y: "y = round_to p emin x" and b: "\<not> 2 powr of_int (emax + 1) \<le> \<bar>y\<bar>"
    by (auto simp: to_fp_def Let_def split: if_splits)
  have "round_to p emin y = y"
    unfolding y by (rule round_to_idem [OF assms(2)])
  with b show ?thesis by (simp add: to_fp_def)
qed

lemma f32_idem: "f32 x = Finite y \<Longrightarrow> f32 y = Finite y"
  unfolding f32_def by (rule to_fp_idem) simp_all

lemma to_fp_finite:
  assumes "\<bar>x\<bar> < 2 powr of_int emax" and "emin < emax"
  shows "to_fp p emin emax x = Finite (round_to p emin x)"
proof -
  have "\<bar>round_to p emin x\<bar> \<le> 2 powr of_int emax"
    by (rule round_to_abs_le [OF assms])
  also have "\<dots> < 2 powr of_int (emax + 1)" by simp
  finally show ?thesis by (simp add: to_fp_def)
qed

lemma f32_finite: "\<bar>x\<bar> < 2 ^ 127 \<Longrightarrow> f32 x = Finite (round_to 24 (- 126) x)"
  unfolding f32_def by (rule to_fp_finite) simp_all

lemma f64_finite: "\<bar>x\<bar> < 2 ^ 1023 \<Longrightarrow> f64 x = Finite (round_to 53 (- 1022) x)"
  unfolding f64_def by (rule to_fp_finite) simp_all

lemma round_to_abs_le_pow:
  assumes "\<bar>x\<bar> < 2 ^ K" and "emin < int K"
  shows "\<bar>round_to p emin x\<bar> \<le> 2 ^ K"
  using round_to_abs_le [of x "int K" emin p] assms by (simp add: powr_realpow)

lemma round_to_binade:
  assumes "2 powr of_int e \<le> \<bar>x\<bar>" and "\<bar>x\<bar> < 2 powr of_int (e + 1)"
  shows "round_to p emin x =
    of_int (round_half_even (x / 2 powr of_int (max e emin - int p + 1)))
      * 2 powr of_int (max e emin - int p + 1)"
proof -
  have "(0 :: real) < 2 powr of_int e" by simp
  with assms(1) have pos: "0 < \<bar>x\<bar>" by linarith
  then have nz: "x \<noteq> 0" by simp
  have "\<lfloor>log 2 \<bar>x\<bar>\<rfloor> = e"
    using assms pos by (subst floor_log_eq_powr_iff) simp_all
  then show ?thesis
    using nz by (simp add: round_to_def Let_def)
qed

lemma f32_16777217: "f32 16777217 = Finite 16777216"
proof -
  have r: "round_half_even (16777217 / 2) = 8388608"
    by (simp add: round_half_even_def Let_def)
  have "round_to 24 (- 126) 16777217 =
      of_int (round_half_even (16777217 / 2 powr of_int (max 24 (- 126) - int 24 + 1)))
        * 2 powr of_int (max 24 (- 126) - int 24 + 1)"
    by (rule round_to_binade) simp_all
  also have "\<dots> = 16777216"
    by (simp add: r)
  finally show ?thesis
    by (simp add: f32_def to_fp_def Let_def)
qed

lemma fp_add_zero_right: "is_f32 a \<Longrightarrow> fp_add f32 a (Finite 0) = a"
  by (cases a) (simp_all add: fp_add_def is_f32_def cast32_def)

lemma is_f32_f32 [simp]: "is_f32 (f32 x)"
proof (cases "f32 x")
  case (Finite y)
  with f32_idem [OF Finite] show ?thesis by (simp add: is_f32_def cast32_def)
qed (simp_all add: is_f32_def cast32_def)

lemma is_f32_add [simp]: "is_f32 (fp_add f32 a b)"
  by (cases a; cases b) (simp_all add: fp_add_def, simp_all add: is_f32_def cast32_def)

lemma is_f32_sub [simp]: "is_f32 (fp_sub f32 a b)"
  by (simp add: fp_sub_def)


lemma f32_bounded:
  assumes "\<bar>x\<bar> < 2 ^ K" and "K \<le> 127"
  shows "\<exists>y. f32 x = Finite y \<and> \<bar>y\<bar> \<le> 2 ^ K"
proof -
  have "(2 :: real) ^ K \<le> 2 ^ 127"
    using assms(2) by (intro power_increasing) simp_all
  with assms(1) have "\<bar>x\<bar> < 2 ^ 127" by linarith
  then have "f32 x = Finite (round_to 24 (- 126) x)" by (rule f32_finite)
  moreover have "\<bar>round_to 24 (- 126) x\<bar> \<le> 2 ^ K"
    by (rule round_to_abs_le_pow [OF assms(1)]) simp
  ultimately show ?thesis by blast
qed

lemma f64_bounded:
  assumes "\<bar>x\<bar> < 2 ^ K" and "K \<le> 1023"
  shows "\<exists>y. f64 x = Finite y \<and> \<bar>y\<bar> \<le> 2 ^ K"
proof -
  have "(2 :: real) ^ K \<le> 2 ^ 1023"
    using assms(2) by (intro power_increasing) simp_all
  with assms(1) have "\<bar>x\<bar> < 2 ^ 1023" by linarith
  then have "f64 x = Finite (round_to 53 (- 1022) x)" by (rule f64_finite)
  moreover have "\<bar>round_to 53 (- 1022) x\<bar> \<le> 2 ^ K"
    by (rule round_to_abs_le_pow [OF assms(1)]) simp
  ultimately show ?thesis by blast
qed

lemma round_to_ge_binade:
  assumes x: "2 powr of_int e \<le> x" and e: "emin \<le> e" and p: "0 < p"
  shows "2 powr of_int e \<le> round_to p emin x"
proof -
  have "(0 :: real) < 2 powr of_int e" by simp
  with x have pos: "0 < x" by linarith
  let ?b = "\<lfloor>log 2 \<bar>x\<bar>\<rfloor>"
  let ?q = "2 powr of_int (?b - int p + 1) :: real"
  have q: "0 < ?q" by simp
  have "of_int e \<le> log 2 x"
    using x pos by (simp add: le_log_iff)
  then have eb: "e \<le> ?b" using pos by (simp add: le_floor_iff)
  with e have m: "max ?b emin = ?b" by simp
  from p obtain p' where p': "p = Suc p'" by (cases p) auto
  have "2 powr of_int ?b \<le> x"
    using binade(1) [of x] pos by simp
  then have "2 powr of_int ?b / ?q \<le> x / ?q"
    using q by (simp add: divide_right_mono)
  moreover have "2 powr of_int ?b / ?q = 2 powr (of_int ?b - of_int (?b - int p + 1))"
    by (simp only: powr_diff)
  moreover have "\<dots> = 2 powr of_int (int p')"
    using p' by simp
  moreover have "\<dots> = of_int (2 ^ p')"
    by (simp add: powr_realpow)
  ultimately have "of_int (2 ^ p') \<le> x / ?q" by linarith
  then have "2 ^ p' \<le> \<lfloor>x / ?q\<rfloor>" by (simp only: le_floor_iff)
  with round_half_even_bounds(1) [of "x / ?q"] have "2 ^ p' \<le> round_half_even (x / ?q)"
    by linarith
  then have "of_int (2 ^ p') \<le> (of_int (round_half_even (x / ?q)) :: real)"
    by (simp only: of_int_le_iff)
  then have "of_int (2 ^ p') * ?q \<le> of_int (round_half_even (x / ?q)) * ?q"
    using q by (simp only: mult_le_cancel_right_pos)
  moreover have "round_to p emin x = of_int (round_half_even (x / ?q)) * ?q"
    using pos m by (simp add: round_to_def Let_def)
  moreover have "of_int (2 ^ p') * ?q = 2 powr of_int ?b"
  proof -
    have "of_int (2 ^ p') * ?q = 2 powr of_int (int p') * ?q"
      by (simp add: powr_realpow)
    also have "\<dots> = 2 powr (of_int (int p') + of_int (?b - int p + 1))"
      by (simp only: powr_add)
    also have "\<dots> = 2 powr of_int ?b"
      using p' by simp
    finally show ?thesis .
  qed
  moreover have "(2 :: real) powr of_int e \<le> 2 powr of_int ?b"
    using eb by simp
  ultimately show ?thesis by linarith
qed

lemma epsilon32:
  "\<exists>z. cast32 (f64 (1 / 100000)) = Finite z \<and> 0 < z \<and> f32 z = Finite z"
proof -
  have small: "(2 :: real) powr of_int (- 17) \<le> 1 / 100000"
    by (simp add: powr_minus_divide)
  have "\<bar>1 / 100000 :: real\<bar> < 2 ^ 1023" by simp
  then have y: "f64 (1 / 100000) = Finite (round_to 53 (- 1022) (1 / 100000))"
    by (rule f64_finite)
  let ?y = "round_to 53 (- 1022) (1 / 100000)"
  have ylo: "2 powr of_int (- 17) \<le> ?y"
    by (rule round_to_ge_binade [OF small]) simp_all
  have yhi: "\<bar>?y\<bar> \<le> 2 ^ 0"
    by (rule round_to_abs_le_pow) simp_all
  then have "\<bar>?y\<bar> < 2 ^ 127" by simp
  then have z: "f32 ?y = Finite (round_to 24 (- 126) ?y)"
    by (rule f32_finite)
  have "2 powr of_int (- 17) \<le> round_to 24 (- 126) ?y"
    by (rule round_to_ge_binade [OF ylo]) simp_all
  moreover have "(0 :: real) < 2 powr of_int (- 17)" by simp
  ultimately have "0 < round_to 24 (- 126) ?y" by linarith
  with y z f32_idem [OF z] show ?thesis by (simp add: cast32_def)
qed

lemma finite_fp_simps [simp]:
  "finite_fp (Finite x)" "\<not> finite_fp PosInf" "\<not> finite_fp NegInf" "\<not> finite_fp NaN"
  by (simp_all add: finite_fp_def)

lemma finite_fpE: "finite_fp a \<Longrightarrow> \<exists>x. a = Finite x"
  by (cases a) simp_all

lemma fp_mul_zero_right: "finite_fp a \<Longrightarrow> fp_mul f32 a (Finite 0) = Finite 0"
  by (cases a) (simp_all add: fp_mul_def)

lemma fp_mul_zero_left: "finite_fp a \<Longrightarrow> fp_mul f32 (Finite 0) a = Finite 0"
  by (cases a) (simp_all add: fp_mul_def)

lemma fp_sub_one_one [simp]: "fp_sub f32 (Finite 1) (Finite 1) = Finite 0"
  by (simp add: fp_sub_def fp_add_def fp_neg_def)

lemma round_to_le_representable:
  assumes y: "round_to p emin y = y" and le: "\<bar>v\<bar> \<le> \<bar>y\<bar>"
  shows "\<bar>round_to p emin v\<bar> \<le> \<bar>y\<bar>"
proof (cases "v = 0")
  case True
  then show ?thesis by (simp add: round_to_def)
next
  case False
  with le have ny: "y \<noteq> 0" by auto
  define ev where "ev = max \<lfloor>log 2 \<bar>v\<bar>\<rfloor> emin - int p + 1"
  define ey where "ey = max \<lfloor>log 2 \<bar>y\<bar>\<rfloor> emin - int p + 1"
  define q :: real where "q = 2 powr of_int ev"
  have q: "0 < q" by (simp add: q_def)
  have "log 2 \<bar>v\<bar> \<le> log 2 \<bar>y\<bar>"
    using False le by simp
  then have "\<lfloor>log 2 \<bar>v\<bar>\<rfloor> \<le> \<lfloor>log 2 \<bar>y\<bar>\<rfloor>"
    by (rule floor_mono)
  then have d: "0 \<le> ey - ev" by (simp add: ev_def ey_def)
  from round_to_shape [OF ny, of p emin] y obtain j where
      j: "y = of_int j * 2 powr of_int ey"
    unfolding ey_def by auto
  have "(2 :: real) powr of_int ey = 2 powr (of_int (ey - ev) + of_int ev)"
    by (simp only: of_int_add [symmetric] diff_add_cancel)
  also have "\<dots> = 2 powr of_int (ey - ev) * q"
    by (simp only: powr_add q_def)
  also have "\<dots> = of_int (2 ^ nat (ey - ev)) * q"
    by (simp only: two_powr_nonneg_int [OF d])
  finally have "\<bar>of_int j * 2 powr of_int ey\<bar> = of_int (\<bar>j\<bar> * 2 ^ nat (ey - ev)) * q"
    using q by (simp add: abs_mult)
  with j have "\<bar>y\<bar> = of_int (\<bar>j\<bar> * 2 ^ nat (ey - ev)) * q"
    by simp
  then obtain J :: int where J: "\<bar>y\<bar> = of_int J * q"
    by blast
  have "\<bar>v / q\<bar> = \<bar>v\<bar> / q"
    using q by (simp add: abs_divide)
  also have "\<dots> \<le> \<bar>y\<bar> / q"
    using le q by (simp add: divide_right_mono)
  also have "\<dots> = of_int J"
    using q by (simp add: J)
  finally have "\<bar>round_half_even (v / q)\<bar> \<le> J"
    by (rule round_half_even_abs_le)
  then have "of_int \<bar>round_half_even (v / q)\<bar> \<le> (of_int J :: real)"
    by (simp only: of_int_le_iff)
  then have "of_int \<bar>round_half_even (v / q)\<bar> * q \<le> of_int J * q"
    using q by (simp only: mult_le_cancel_right_pos)
  moreover have "round_to p emin v = of_int (round_half_even (v / q)) * q"
    using False by (simp add: round_to_def Let_def q_def ev_def)
  ultimately show ?thesis
    using q by (simp add: J abs_mult)
qed

lemma f32_le_representable:
  assumes "f32 y = Finite y" and "\<bar>v\<bar> \<le> \<bar>y\<bar>"
  shows "\<exists>z. f32 v = Finite z \<and> \<bar>z\<bar> \<le> \<bar>y\<bar>"
proof -
  from assms(1) have r: "round_to 24 (- 126) y = y"
      and b: "\<not> 2 powr of_int (127 + 1) \<le> \<bar>y\<bar>"
    by (auto simp: f32_def to_fp_def Let_def split: if_splits)
  have "\<bar>round_to 24 (- 126) v\<bar> \<le> \<bar>y\<bar>"
    using r assms(2) by (rule round_to_le_representable)
  with b show ?thesis
    by (simp add: f32_def to_fp_def Let_def)
qed


section \<open>Properties of VanillaRolloutStorage.generator\<close>

lemma batches_drop_last_lengths:
  "b \<in> set (batches_drop_last n xs) \<Longrightarrow> length b = n"
proof (induction n xs rule: batches_drop_last.induct)
  case (1 n xs)
  show ?case
  proof (cases "n = 0 \<or> length xs < n")
    case True
    with "1.prems" show ?thesis by (simp add: batches_drop_last.simps)
  next
    case False
    with "1.prems" have "b = take n xs \<or> b \<in> set (batches_drop_last n (drop n xs))"
      by (subst (asm) batches_drop_last.simps) auto
    with False "1.IH" show ?thesis by auto
  qed
qed

lemma concat_batches_drop_last:
  "0 < n \<Longrightarrow> concat (batches_drop_last n xs) = take (length xs - length xs mod n) xs"
proof (induction n xs rule: batches_drop_last.induct)
  case (1 n xs)
  show ?case
  proof (cases "length xs < n")
    case True
    then show ?thesis by (simp add: batches_drop_last.simps)
  next
    case False
    with "1.prems" have step: "concat (batches_drop_last n xs)
        = take n xs @ concat (batches_drop_last n (drop n xs))"
      by (subst batches_drop_last.simps) simp
    from False "1.prems" "1.IH" have ih: "concat (batches_drop_last n (drop n xs))
        = take (length (drop n xs) - length (drop n xs) mod n) (drop n xs)"
      by simp
    from False have m: "(length xs - n) mod n = length xs mod n"
      by (simp add: le_mod_geq)
    have le: "length xs mod n \<le> length xs - n"
      using False "1.prems" by (metis m mod_less_eq_dividend)
    have "take n xs @ take (length xs - n - length xs mod n) (drop n xs)
        = take (n + (length xs - n - length xs mod n)) xs"
      by (simp add: take_add)
    also have "n + (length xs - n - length xs mod n) = length xs - length xs mod n"
      using False le by simp
    finally show ?thesis using step ih m by simp
  qed
qed

lemma length_batches_drop_last:
  "0 < n \<Longrightarrow> length (batches_drop_last n xs) = length xs div n"
proof (induction n xs rule: batches_drop_last.induct)
  case (1 n xs)
  show ?case
  proof (cases "length xs < n")
    case True
    then show ?thesis by (simp add: batches_drop_last.simps)
  next
    case False
    with "1.prems" have "length (batches_drop_last n xs)
        = Suc (length (batches_drop_last n (drop n xs)))"
      by (subst batches_drop_last.simps) simp
    also have "\<dots> = Suc ((length xs - n) div n)"
      using False "1.prems" "1.IH" by simp
    also have "\<dots> = length xs div n"
      using False "1.prems" by (simp add: le_div_geq)
    finally show ?thesis .
  qed
qed

lemma SubsetRandomSampler_range:
  assumes "mset randperm = mset [0..<b]"
  shows "SubsetRandomSampler [0..<b] randperm = randperm"
proof -
  have "\<forall>i \<in> set randperm. i < b"
    using assms by (metis atLeastLessThan_iff mset_eq_setD set_upt)
  then show ?thesis
    unfolding SubsetRandomSampler_def by (simp add: map_idI)
qed


lemma length_concat_shaped: "shaped t n xs \<Longrightarrow> length (concat xs) = t * n"
  unfolding shaped_def by (induction xs arbitrary: t) auto

lemma shaped_butlast: "shaped (Suc t) n xs \<Longrightarrow> shaped t n (butlast xs)"
  unfolding shaped_def by (auto simp: list_all_iff dest: in_set_butlastD)

lemma gather_in_range:
  assumes "shaped t n xs" and "\<forall>i \<in> set indices. i < t * n"
  shows "\<exists>ys. gather xs indices = Inr ys"
  using assms by (simp add: gather_def Let_def length_concat_shaped list_all_iff)

lemma gather_mini_batch_in_range:
  assumes "wf_storage s" and "\<forall>i \<in> set indices. i < num_steps s * num_envs s"
  shows "\<exists>b. gather_mini_batch s indices = Inr b"
proof -
  from assms obtain a1 a2 a3 a4 a5 a6 a7 a8 where
      "gather (obs s) indices = Inr a1"
      "gather (actions s) indices = Inr a2"
      "gather (values_buf s) indices = Inr a3"
      "gather (returns s) indices = Inr a4"
      "gather (butlast (terminateds s)) indices = Inr a5"
      "gather (butlast (truncateds s)) indices = Inr a6"
      "gather (log_probs s) indices = Inr a7"
      "gather (advantages s) indices = Inr a8"
    unfolding wf_storage_def by (meson gather_in_range shaped_butlast)
  then show ?thesis by (simp add: gather_mini_batch_def bind_err_def)
qed

lemma yield_batches_in_range:
  assumes "wf_storage s"
    and "\<forall>b \<in> set bs. \<forall>i \<in> set b. i < num_steps s * num_envs s"
  shows "snd (yield_batches s bs) = None \<and> length (fst (yield_batches s bs)) = length bs"
  using assms(2)
proof (induction bs)
  case Nil
  then show ?case by simp
next
  case (Cons b bs)
  then obtain y where "gather_mini_batch s b = Inr y"
    using gather_mini_batch_in_range [OF assms(1), of b] by auto
  with Cons show ?case by (auto split: prod.splits)
qed

lemma generator_sampler_ok:
  assumes "0 < n" and "n \<le> int (num_envs s * num_steps s)"
    and "mset randperm = mset [0..<num_envs s * num_steps s]"
  shows "generator_sampler s randperm n =
     Inr (batches_drop_last (num_envs s * num_steps s div nat n) randperm)"
proof -
  let ?B = "num_envs s * num_steps s"
  have n: "n = int (nat n)" using assms(1) by simp
  have d: "int ?B div n = int (?B div nat n)"
    by (subst n) (simp only: zdiv_int)
  have "0 < ?B div nat n"
    using assms(1,2) by (simp add: div_greater_zero_iff nat_le_iff)
  with d have pos: "\<not> int ?B div n \<le> 0" and eq: "nat (int ?B div n) = ?B div nat n"
    by simp_all
  show ?thesis
    using assms(1,2) pos eq SubsetRandomSampler_range [OF assms(3)]
    by (simp only: generator_sampler_def Let_def BatchSampler_def if_False not_not
        simp_thms less_irrefl) auto
qed

text \<open>
  Claim C9 (mini-batch sampling precondition). For every positive \<open>num_mini_batch\<close>:
  when \<open>num_envs * num_steps < num_mini_batch\<close> the generator ends with the assertion's
  error before it yields anything; when \<open>num_envs * num_steps \<ge> num_mini_batch\<close> (on a
  storage with the shapes of \<^verbatim>\<open>__init__\<close>) it yields at least one batch and ends without
  an exception. The two cases are exclusive and exhaustive, so the error is raised if and
  only if \<open>num_envs * num_steps < num_mini_batch\<close>.
\<close>

theorem generator_raises_iff:
  assumes "0 < n"
  shows "(int (num_envs s * num_steps s) < n \<longrightarrow>
            generator s randperm n = ([], Some AssertionError)) \<and>
         (n \<le> int (num_envs s * num_steps s) \<longrightarrow> wf_storage s \<longrightarrow>
            mset randperm = mset [0..<num_envs s * num_steps s] \<longrightarrow>
            snd (generator s randperm n) = None \<and> fst (generator s randperm n) \<noteq> [])"
proof (intro conjI impI)
  assume "int (num_envs s * num_steps s) < n"
  then show "generator s randperm n = ([], Some AssertionError)"
    by (simp add: generator_def generator_sampler_def)
next
  let ?B = "num_envs s * num_steps s"
  let ?m = "?B div nat n"
  let ?bs = "batches_drop_last ?m randperm"
  assume le: "n \<le> int ?B" and wf: "wf_storage s" and perm: "mset randperm = mset [0..<?B]"
  have g: "generator s randperm n = yield_batches s ?bs"
    using generator_sampler_ok [OF assms le perm] by (simp add: generator_def)
  have m_pos: "0 < ?m"
    using assms le by (simp add: div_greater_zero_iff nat_le_iff)
  have len: "length randperm = ?B"
    using perm by (metis length_upt minus_nat.diff_0 size_mset)
  have "set (concat ?bs) \<subseteq> set randperm"
    using m_pos by (simp add: concat_batches_drop_last set_take_subset)
  moreover have "set randperm = {0..<?B}"
    using perm by (metis mset_eq_setD set_upt)
  ultimately have "\<forall>b \<in> set ?bs. \<forall>i \<in> set b. i < num_steps s * num_envs s"
    by (auto simp: mult.commute)
  from yield_batches_in_range [OF wf this]
  have "snd (yield_batches s ?bs) = None"
    and "length (fst (yield_batches s ?bs)) = ?B div ?m"
    using m_pos len by (simp_all add: length_batches_drop_last)
  moreover have "0 < ?B div ?m"
    using m_pos by (simp add: div_greater_zero_iff)
  ultimately show "snd (generator s randperm n) = None"
    and "fst (generator s randperm n) \<noteq> []"
    using g by auto
qed


lemma upt_5: "[0..<5] = [0, 1, 2, 3, 4 :: nat]"
  by code_simp

lemma example_randperm:
  "mset [3, 1, 4, 0, 2] = mset [0..<num_envs example_storage * num_steps example_storage]"
  by (simp add: example_storage_def upt_5)

lemma wf_example_storage: "wf_storage example_storage"
  by (simp add: wf_storage_def shaped_def example_storage_def)

theorem generator_raises_iff_witness:
  "generator example_storage [3, 1, 4, 0, 2] 6 = ([], Some AssertionError) \<and>
   snd (generator example_storage [3, 1, 4, 0, 2] 2) = None \<and>
   fst (generator example_storage [3, 1, 4, 0, 2] 2) \<noteq> []"
proof -
  note p = example_randperm
  have b: "int (num_envs example_storage * num_steps example_storage) = 5"
    by (simp add: example_storage_def)
  show ?thesis
    using generator_raises_iff [of 6 example_storage "[3, 1, 4, 0, 2]"]
      generator_raises_iff [of 2 example_storage "[3, 1, 4, 0, 2]"]
      wf_example_storage p b
    by simp
qed

lemma gather_rows_at:
  assumes "shaped t n xs" and "\<forall>i \<in> set indices. i < t * n"
  shows "gather xs indices = Inr (rows_at xs indices)"
  using assms by (simp add: gather_def rows_at_def Let_def length_concat_shaped list_all_iff)

lemma gather_mini_batch_transitions:
  assumes "wf_storage s" and "\<forall>i \<in> set indices. i < num_steps s * num_envs s"
  shows "gather_mini_batch s indices = Inr (transitions_at s indices)"
proof -
  from assms have
      "gather (obs s) indices = Inr (rows_at (obs s) indices)"
      "gather (actions s) indices = Inr (rows_at (actions s) indices)"
      "gather (values_buf s) indices = Inr (rows_at (values_buf s) indices)"
      "gather (returns s) indices = Inr (rows_at (returns s) indices)"
      "gather (butlast (terminateds s)) indices = Inr (rows_at (butlast (terminateds s)) indices)"
      "gather (butlast (truncateds s)) indices = Inr (rows_at (butlast (truncateds s)) indices)"
      "gather (log_probs s) indices = Inr (rows_at (log_probs s) indices)"
      "gather (advantages s) indices = Inr (rows_at (advantages s) indices)"
    unfolding wf_storage_def by (meson gather_rows_at shaped_butlast)+
  then show ?thesis by (simp add: gather_mini_batch_def bind_err_def transitions_at_def)
qed

lemma yield_batches_transitions:
  assumes "wf_storage s"
    and "\<forall>b \<in> set bs. \<forall>i \<in> set b. i < num_steps s * num_envs s"
  shows "yield_batches s bs = (map (transitions_at s) bs, None)"
  using assms(2)
proof (induction bs)
  case Nil
  then show ?case by simp
next
  case (Cons b bs)
  then have "gather_mini_batch s b = Inr (transitions_at s b)"
    using gather_mini_batch_transitions [OF assms(1), of b] by auto
  with Cons show ?case by simp
qed

text \<open>
  Claim C5 (batch completeness), as amended. On a storage with the shapes of
  \<^verbatim>\<open>__init__\<close> and for \<open>1 \<le> num_mini_batch \<le> B\<close>, where \<open>B = num_envs * num_steps\<close>,
  one \<^verbatim>\<open>generator\<close> call ends without an exception and yields one mini-batch for each
  index list \<open>b\<close> of the sampler, in order: the result of \<open>gather_mini_batch\<close> on \<open>b\<close>,
  which holds the transitions at the indices \<open>b\<close>. There are \<open>B div m\<close> index lists of
  \<open>m = B div num_mini_batch\<close> indices each. Their concatenation is the random
  permutation without its last \<open>B mod m\<close> indices: the lists are pairwise disjoint and
  without repeats, all their indices are indices of stored transitions, and they cover
  every transition exactly when \<open>m\<close> divides \<open>B\<close>; otherwise \<^verbatim>\<open>drop_last=True\<close> omits
  the last \<open>B mod m\<close> indices of the permutation.
\<close>

theorem generator_batches_partition:
  assumes "wf_storage s" and "1 \<le> n" and "n \<le> int (num_envs s * num_steps s)"
    and "mset randperm = mset [0..<num_envs s * num_steps s]"
  shows "\<exists>bs. generator_sampler s randperm n = Inr bs \<and>
     generator s randperm n = (map (transitions_at s) bs, None) \<and>
     map Inr (fst (generator s randperm n)) = map (gather_mini_batch s) bs \<and>
     length bs = num_envs s * num_steps s div (num_envs s * num_steps s div nat n) \<and>
     (\<forall>b \<in> set bs. length b = num_envs s * num_steps s div nat n) \<and>
     concat bs =
       take (num_envs s * num_steps s
               - num_envs s * num_steps s mod (num_envs s * num_steps s div nat n)) randperm \<and>
     distinct (concat bs) \<and>
     set (concat bs) \<subseteq> {0..<num_envs s * num_steps s} \<and>
     (set (concat bs) = {0..<num_envs s * num_steps s} \<longleftrightarrow>
        (num_envs s * num_steps s div nat n) dvd (num_envs s * num_steps s))"
proof -
  let ?B = "num_envs s * num_steps s"
  let ?m = "?B div nat n"
  let ?bs = "batches_drop_last ?m randperm"
  have n_pos: "0 < n" using assms(2) by simp
  have g: "generator_sampler s randperm n = Inr ?bs"
    using generator_sampler_ok [OF n_pos assms(3,4)] .
  have m_pos: "0 < ?m"
    using assms(2,3) by (simp add: div_greater_zero_iff nat_le_iff)
  have len: "length randperm = ?B"
    using assms(4) by (metis length_upt minus_nat.diff_0 size_mset)
  have dist: "distinct randperm"
    using assms(4) by (metis distinct_upt mset_eq_imp_distinct_iff)
  have set_perm: "set randperm = {0..<?B}"
    using assms(4) by (metis mset_eq_setD set_upt)
  have c: "concat ?bs = take (?B - ?B mod ?m) randperm"
    using m_pos len by (simp add: concat_batches_drop_last)
  have d: "distinct (concat ?bs)"
    using c dist by simp
  have sub: "set (concat ?bs) \<subseteq> {0..<?B}"
    using c set_perm set_take_subset by metis
  have l: "length (concat ?bs) = ?B - ?B mod ?m"
    using c len by simp
  have n_bs: "length ?bs = ?B div ?m"
    using m_pos len by (simp add: length_batches_drop_last)
  have range: "\<forall>b \<in> set ?bs. \<forall>i \<in> set b. i < num_steps s * num_envs s"
    using sub by (auto simp: mult.commute)
  have y: "generator s randperm n = (map (transitions_at s) ?bs, None)"
    using g yield_batches_transitions [OF assms(1) range] by (simp add: generator_def)
  have "map (gather_mini_batch s) ?bs = map (\<lambda>b. Inr (transitions_at s b)) ?bs"
    using range gather_mini_batch_transitions [OF assms(1)] by (intro map_cong) auto
  then have gm: "map Inr (fst (generator s randperm n)) = map (gather_mini_batch s) ?bs"
    using y by simp
  have cover: "set (concat ?bs) = {0..<?B} \<longleftrightarrow> ?m dvd ?B"
  proof
    assume "set (concat ?bs) = {0..<?B}"
    then have "card (set (concat ?bs)) = ?B" by simp
    moreover from d have "card (set (concat ?bs)) = length (concat ?bs)"
      by (rule distinct_card)
    ultimately have "length (concat ?bs) = ?B" by simp
    with l have "?B mod ?m = 0"
      using m_pos by (metis diff_diff_cancel diff_self_eq_0 mod_less_eq_dividend)
    then show "?m dvd ?B" by (simp add: dvd_eq_mod_eq_0)
  next
    assume "?m dvd ?B"
    then have "?B mod ?m = 0" by simp
    with c len have "concat ?bs = randperm" by simp
    with set_perm show "set (concat ?bs) = {0..<?B}" by simp
  qed
  show ?thesis
    using g y gm n_bs c d sub cover batches_drop_last_lengths [of _ ?m randperm]
    by (intro exI [of _ ?bs]) blast
qed

theorem generator_batches_partition_witness:
  "\<exists>bs. generator_sampler example_storage [3, 1, 4, 0, 2] 2 = Inr bs \<and>
     generator example_storage [3, 1, 4, 0, 2] 2 = (map (transitions_at example_storage) bs, None) \<and>
     length bs = 2 \<and>
     concat bs = [3, 1, 4, 0] \<and>
     distinct (concat bs) \<and>
     set (concat bs) \<noteq> {0..<5}"
proof -
  note p = example_randperm
  have b: "num_envs example_storage * num_steps example_storage = 5"
    by (simp add: example_storage_def)
  show ?thesis
    using generator_batches_partition [of example_storage 2 "[3, 1, 4, 0, 2]"] p
      wf_example_storage
    unfolding b by auto
qed

text \<open>
  The claim C5 as stated fails: with five stored transitions and two mini-batches the
  mini-batch size is 2, two batches are yielded and the transition that the permutation
  puts last (here index 2) is in neither.
\<close>

theorem generator_omits_remainder:
  "1 \<le> (2::int) \<and> 2 \<le> int (num_envs example_storage * num_steps example_storage) \<and>
   mset [3, 1, 4, 0, 2] = mset [0..<num_envs example_storage * num_steps example_storage] \<and>
   generator_sampler example_storage [3, 1, 4, 0, 2] 2 = Inr [[3, 1], [4, 0]] \<and>
   map batch_obs (fst (generator example_storage [3, 1, 4, 0, 2] 2)) = [[3, 1], [4, 0]] \<and>
   snd (generator example_storage [3, 1, 4, 0, 2] 2) = None \<and>
   2 \<notin> set (concat [[3, 1], [4, 0 :: nat]])"
  by (simp add: generator_def generator_sampler_def BatchSampler_def SubsetRandomSampler_def
      batches_drop_last.simps example_storage_def upt_5 gather_mini_batch_def bind_err_def
      gather_def)

section \<open>Properties of VanillaRolloutStorage.compute_returns_and_advantages\<close>

lemma gae_body_terminal:
  assumes "\<forall>e < num_envs s. last (terminateds s) ! e = Finite 1"
    and "\<forall>e < num_envs s. finite_fp (fp_mul f32 (cast32 (discount s)) (lv ! e))"
  shows "gae_body s lv (num_steps s - 1) gae =
     map (\<lambda>e.
       fp_add f32
         (fp_sub f32 (fp_add f32 (rewards s ! (num_steps s - 1) ! e) (Finite 0))
            (values_buf s ! (num_steps s - 1) ! e))
         (fp_mul f32
            (fp_mul f32 (cast32 (fp_mul f64 (discount s) (gae_lambda s))) (Finite 0))
            (gae ! e)))
       [0..<num_envs s]"
  unfolding gae_body_def using assms
  by (intro map_cong [OF refl]) (simp add: Let_def fp_mul_zero_right)

lemma gae_body_inner:
  assumes "step \<noteq> num_steps s - 1"
  shows "gae_body s lv1 step gae = gae_body s lv2 step gae"
  using assms by (simp add: gae_body_def Let_def)

lemma gae_loop_terminal:
  assumes "\<forall>e < num_envs s. last (terminateds s) ! e = Finite 1"
    and "\<forall>e < num_envs s. finite_fp (fp_mul f32 (cast32 (discount s)) (lv1 ! e))"
    and "\<forall>e < num_envs s. finite_fp (fp_mul f32 (cast32 (discount s)) (lv2 ! e))"
  shows "gae_loop s lv1 k gae adv = gae_loop s lv2 k gae adv"
proof (induction k arbitrary: gae adv)
  case 0
  show ?case by simp
next
  case (Suc k)
  have "gae_body s lv1 k gae = gae_body s lv2 k gae"
  proof (cases "k = num_steps s - 1")
    case True
    show ?thesis
      unfolding True
      by (simp only: gae_body_terminal [OF assms(1,2)] gae_body_terminal [OF assms(1,3)])
  next
    case False
    then show ?thesis by (rule gae_body_inner)
  qed
  with Suc.IH show ?case by (simp add: Let_def)
qed

lemma gae_loop_keeps_above:
  "k \<le> i \<Longrightarrow> gae_loop s lv k gae adv ! i = adv ! i"
  by (induction k arbitrary: gae adv) (simp_all add: Let_def)

lemma gae_loop_last_frame:
  assumes "k < length adv"
  shows "gae_loop s lv (Suc k) gae adv ! k = gae_body s lv k gae"
  using assms by (simp add: Let_def gae_loop_keeps_above)

lemma length_gae_loop: "length (gae_loop s lv k gae adv) = length adv"
  by (induction k arbitrary: gae adv) (simp_all add: Let_def)

lemma length_gae_body: "length (gae_body s lv step gae) = num_envs s"
  by (simp add: gae_body_def)

lemma broadcast_envs_valid:
  assumes "length xs = n \<or> length xs = 1"
  shows "\<exists>ys. broadcast_envs n xs = Inr ys \<and> length ys = n \<and> (\<forall>e < n. ys ! e \<in> set xs)"
proof (cases "length xs = n")
  case True
  then show ?thesis by (simp add: broadcast_envs_def)
next
  case False
  with assms have l: "length xs = 1" by simp
  then have "hd xs \<in> set xs" by (cases xs) simp_all
  with False l show ?thesis by (simp add: broadcast_envs_def)
qed

lemma broadcast_envs_invalid:
  "length xs \<noteq> n \<Longrightarrow> length xs \<noteq> 1 \<Longrightarrow> broadcast_envs n xs = Inl RuntimeError"
  by (simp add: broadcast_envs_def)

lemma gae_advantages_terminal:
  assumes flags: "\<forall>e < num_envs s. last (terminateds s) ! e = Finite 1"
    and s1: "length lv1 = num_envs s \<or> length lv1 = 1"
    and s2: "length lv2 = num_envs s \<or> length lv2 = 1"
    and fin: "\<forall>x \<in> set lv1 \<union> set lv2. finite_fp (fp_mul f32 (cast32 (discount s)) x)"
  shows "\<exists>adv. gae_advantages s lv1 = Inr adv \<and> gae_advantages s lv2 = Inr adv"
proof (cases "num_steps s = 0")
  case True
  then show ?thesis by (simp add: gae_advantages_def)
next
  case False
  from broadcast_envs_valid [OF s1] obtain ys1 where
      b1: "broadcast_envs (num_envs s) lv1 = Inr ys1" and m1: "\<forall>e < num_envs s. ys1 ! e \<in> set lv1"
    by blast
  from broadcast_envs_valid [OF s2] obtain ys2 where
      b2: "broadcast_envs (num_envs s) lv2 = Inr ys2" and m2: "\<forall>e < num_envs s. ys2 ! e \<in> set lv2"
    by blast
  have f1: "\<forall>e < num_envs s. finite_fp (fp_mul f32 (cast32 (discount s)) (ys1 ! e))"
    using fin m1 by blast
  have f2: "\<forall>e < num_envs s. finite_fp (fp_mul f32 (cast32 (discount s)) (ys2 ! e))"
    using fin m2 by blast
  show ?thesis
    using False b1 b2 gae_loop_terminal [OF flags f1 f2]
    by (simp add: gae_advantages_def bind_err_def)
qed

lemma gae_advantages_last_frame:
  assumes T: "0 < num_steps s" and len: "length (advantages s) = num_steps s"
    and flags: "\<forall>e < num_envs s. last (terminateds s) ! e = Finite 1"
    and shape: "length lv = num_envs s \<or> length lv = 1"
    and fin: "\<forall>x \<in> set lv. finite_fp (fp_mul f32 (cast32 (discount s)) x)"
    and c: "finite_fp (cast32 (fp_mul f64 (discount s) (gae_lambda s)))"
    and e: "e < num_envs s"
    and r: "is_f32 (rewards s ! (num_steps s - 1) ! e)"
    and adv: "gae_advantages s lv = Inr adv"
  shows "adv ! (num_steps s - 1) ! e =
     fp_sub f32 (rewards s ! (num_steps s - 1) ! e) (values_buf s ! (num_steps s - 1) ! e)"
proof -
  from T obtain k where k: "num_steps s = Suc k"
    by (cases "num_steps s") auto
  from broadcast_envs_valid [OF shape] obtain ys where
      b: "broadcast_envs (num_envs s) lv = Inr ys" and m: "\<forall>e < num_envs s. ys ! e \<in> set lv"
    by blast
  have f: "\<forall>e < num_envs s. finite_fp (fp_mul f32 (cast32 (discount s)) (ys ! e))"
    using fin m by blast
  let ?gae0 = "replicate (num_envs s) (Finite 0)"
  have "adv = gae_loop s ys (Suc k) ?gae0 (advantages s)"
    using adv b k by (simp add: gae_advantages_def bind_err_def)
  moreover have "k < length (advantages s)" using len k by simp
  ultimately have "adv ! k = gae_body s ys k ?gae0"
    by (simp only: gae_loop_last_frame)
  then have "adv ! (num_steps s - 1) = gae_body s ys (num_steps s - 1) ?gae0"
    using k by simp
  also note gae_body_terminal [OF flags f]
  finally have "adv ! (num_steps s - 1) ! e =
      fp_add f32
         (fp_sub f32 (fp_add f32 (rewards s ! (num_steps s - 1) ! e) (Finite 0))
            (values_buf s ! (num_steps s - 1) ! e))
         (fp_mul f32
            (fp_mul f32 (cast32 (fp_mul f64 (discount s) (gae_lambda s))) (Finite 0))
            (?gae0 ! e))"
    using e by simp
  also have "\<dots> =
      fp_add f32
         (fp_sub f32 (rewards s ! (num_steps s - 1) ! e) (values_buf s ! (num_steps s - 1) ! e))
         (Finite 0)"
    using e r c by (simp add: fp_add_zero_right fp_mul_zero_right)
  also have "\<dots> =
      fp_sub f32 (rewards s ! (num_steps s - 1) ! e) (values_buf s ! (num_steps s - 1) ! e)"
    by (simp add: fp_add_zero_right)
  finally show ?thesis .
qed

text \<open>
  A discount of magnitude at most 1 keeps every finite float32 bootstrap finite.
\<close>

lemma discounted_bootstrap_finite:
  assumes "cast32 d = Finite c" and "\<bar>c\<bar> \<le> 1" and "finite_fp x" and "is_f32 x"
  shows "finite_fp (fp_mul f32 (cast32 d) x)"
proof -
  from assms(3) obtain y where x: "x = Finite y" using finite_fpE by blast
  with assms(4) have y: "f32 y = Finite y" by (simp add: is_f32_def cast32_def)
  have "\<bar>c * y\<bar> \<le> 1 * \<bar>y\<bar>"
    unfolding abs_mult using assms(2) by (intro mult_right_mono) simp_all
  then have "\<bar>c * y\<bar> \<le> \<bar>y\<bar>" by simp
  from f32_le_representable [OF y this] obtain z where "f32 (c * y) = Finite z" by blast
  then show ?thesis
    by (simp add: assms(1) x fp_mul_def)
qed

text \<open>
  Claim C4 (GAE boundary), as amended. On a storage with the shapes of \<^verbatim>\<open>__init__\<close>
  whose flags \<open>terminateds[T]\<close> are 1 for every environment, take two bootstrap
  arguments of a shape the tensor expressions accept (\<open>num_envs\<close> entries, or one) whose
  entries \<open>x\<close> all have a finite float32 product \<open>discount * x\<close>. Then
  \<^verbatim>\<open>compute_returns_and_advantages\<close> returns the same storage for both: the returns
  are \<open>adv + values\<close> and the stored advantages are the standardized ones,
  \<open>(adv - mean) / (std + 1e-5)\<close>, where \<open>adv\<close> are the advantages of the backward
  loop, the same for both arguments. When moreover \<open>discount * gae_lambda\<close> is finite,
  the loop's advantage at \<open>T - 1\<close>, before the standardization, is the float32 difference
  \<open>reward[T-1] - value[T-1]\<close> (\<open>1.0 - 0.5 = 0.5\<close> for the numbers of the claim).
\<close>

theorem gae_terminal_boundary:
  assumes "wf_storage s"
    and "\<forall>e < num_envs s. last (terminateds s) ! e = Finite 1"
    and "length lv1 = num_envs s \<or> length lv1 = 1"
    and "length lv2 = num_envs s \<or> length lv2 = 1"
    and "\<forall>x \<in> set lv1 \<union> set lv2. finite_fp (fp_mul f32 (cast32 (discount s)) x)"
  shows "compute_returns_and_advantages red s lv1 = compute_returns_and_advantages red s lv2 \<and>
    (\<exists>adv. gae_advantages s lv1 = Inr adv \<and> gae_advantages s lv2 = Inr adv \<and>
       compute_returns_and_advantages red s lv1 =
         Inr (s\<lparr> returns := map2 (map2 (fp_add f32)) adv (values_buf s),
                 advantages :=
                   map (map (standardize (tensor_mean red (concat adv))
                               (tensor_std red (concat adv)))) adv \<rparr>) \<and>
       (0 < num_steps s \<longrightarrow> finite_fp (cast32 (fp_mul f64 (discount s) (gae_lambda s))) \<longrightarrow>
          (\<forall>e < num_envs s. is_f32 (rewards s ! (num_steps s - 1) ! e) \<longrightarrow>
             adv ! (num_steps s - 1) ! e =
               fp_sub f32 (rewards s ! (num_steps s - 1) ! e)
                 (values_buf s ! (num_steps s - 1) ! e))))"
proof -
  from gae_advantages_terminal [OF assms(2-5)] obtain adv where
      a1: "gae_advantages s lv1 = Inr adv" and a2: "gae_advantages s lv2 = Inr adv"
    by blast
  have len: "length (advantages s) = num_steps s"
    using assms(1) by (simp add: wf_storage_def shaped_def)
  have fin1: "\<forall>x \<in> set lv1. finite_fp (fp_mul f32 (cast32 (discount s)) x)"
    using assms(5) by blast
  have eq: "compute_returns_and_advantages red s lv1 = compute_returns_and_advantages red s lv2"
    by (simp add: compute_returns_and_advantages_def a1 a2)
  have c: "compute_returns_and_advantages red s lv1 =
         Inr (s\<lparr> returns := map2 (map2 (fp_add f32)) adv (values_buf s),
                 advantages :=
                   map (map (standardize (tensor_mean red (concat adv))
                               (tensor_std red (concat adv)))) adv \<rparr>)"
    by (simp add: compute_returns_and_advantages_def a1 bind_err_def Let_def)
  have raw: "adv ! (num_steps s - 1) ! e =
        fp_sub f32 (rewards s ! (num_steps s - 1) ! e) (values_buf s ! (num_steps s - 1) ! e)"
    if "0 < num_steps s" and "finite_fp (cast32 (fp_mul f64 (discount s) (gae_lambda s)))"
      and "e < num_envs s" and "is_f32 (rewards s ! (num_steps s - 1) ! e)" for e
    using gae_advantages_last_frame [OF that(1) len assms(2,3) fin1 that(2,3,4) a1] .
  show ?thesis
    using eq a1 a2 c raw by blast
qed

lemma example_discount:
  "\<exists>d. cast32 (f64 (99 / 100)) = Finite d \<and> 1 / 2 \<le> d \<and> d \<le> 2"
proof -
  have lo: "(2 :: real) powr of_int (- 1) \<le> 99 / 100"
    by (simp add: powr_minus_divide)
  have "\<bar>99 / 100 :: real\<bar> < 2 ^ 1023" by simp
  then have y: "f64 (99 / 100) = Finite (round_to 53 (- 1022) (99 / 100))"
    by (rule f64_finite)
  let ?y = "round_to 53 (- 1022) (99 / 100)"
  have ylo: "2 powr of_int (- 1) \<le> ?y"
    by (rule round_to_ge_binade [OF lo]) simp_all
  have yhi: "\<bar>?y\<bar> \<le> 2 ^ 0"
    by (rule round_to_abs_le_pow) simp_all
  then have "\<bar>?y\<bar> < 2 ^ 1" by simp
  from f32_bounded [OF this] obtain d where d: "f32 ?y = Finite d" and dhi: "\<bar>d\<bar> \<le> 2 ^ 1"
    by auto
  have "\<bar>?y\<bar> < 2 ^ 127" using yhi by simp
  then have "f32 ?y = Finite (round_to 24 (- 126) ?y)" by (rule f32_finite)
  with d have "d = round_to 24 (- 126) ?y" by simp
  moreover have "2 powr of_int (- 1) \<le> round_to 24 (- 126) ?y"
    by (rule round_to_ge_binade [OF ylo]) simp_all
  ultimately have "1 / 2 \<le> d" by (simp add: powr_minus_divide)
  with y d dhi show ?thesis by (simp add: cast32_def)
qed

lemma example_discount_lambda:
  "finite_fp (cast32 (fp_mul f64 (f64 (99 / 100)) (f64 (95 / 100))))"
proof -
  have "\<bar>99 / 100 :: real\<bar> < 2 ^ 0" by simp
  from f64_bounded [OF this] obtain d where d: "f64 (99 / 100) = Finite d" and db: "\<bar>d\<bar> \<le> 1"
    by auto
  have "\<bar>95 / 100 :: real\<bar> < 2 ^ 0" by simp
  from f64_bounded [OF this] obtain l where l: "f64 (95 / 100) = Finite l" and lb: "\<bar>l\<bar> \<le> 1"
    by auto
  have "\<bar>d * l\<bar> \<le> 1 * 1"
    unfolding abs_mult using db lb by (intro mult_mono) simp_all
  then have "\<bar>d * l\<bar> < 2 ^ 1" by simp
  from f64_bounded [OF this] obtain m where m: "f64 (d * l) = Finite m" and mb: "\<bar>m\<bar> \<le> 2 ^ 1"
    by auto
  from mb have "\<bar>m\<bar> < 2 ^ 2" by simp
  from f32_bounded [OF this] obtain c where "f32 m = Finite c" by auto
  with d l m show ?thesis by (simp add: fp_mul_def cast32_def)
qed

lemma example_bootstrap_finite:
  assumes "\<bar>x\<bar> \<le> 100"
  shows "finite_fp (fp_mul f32 (cast32 (f64 (99 / 100))) (Finite x))"
proof -
  from example_discount obtain d where d: "cast32 (f64 (99 / 100)) = Finite d"
      and lo: "1 / 2 \<le> d" and hi: "d \<le> 2"
    by blast
  have "\<bar>d * x\<bar> \<le> 2 * 100"
    unfolding abs_mult using lo hi assms by (intro mult_mono) simp_all
  then have "\<bar>d * x\<bar> < 2 ^ 8" by simp
  from f32_bounded [OF this] obtain y where "f32 (d * x) = Finite y" by auto
  with d show ?thesis by (simp add: fp_mul_def)
qed

lemma wf_terminal_storage: "wf_storage terminal_storage"
  by (simp add: wf_storage_def shaped_def terminal_storage_def)

lemma is_f32_one [simp]: "is_f32 (Finite 1)" and is_f32_zero [simp]: "is_f32 (Finite 0)"
  and is_f32_half [simp]: "is_f32 (Finite (1 / 2))"
  by (simp_all add: is_f32_def cast32_def)

lemma terminal_fields:
  "num_steps terminal_storage = 1" "num_envs terminal_storage = 2"
  "discount terminal_storage = f64 (99 / 100)" "gae_lambda terminal_storage = f64 (95 / 100)"
  "rewards terminal_storage = [[Finite 1, Finite 1]]"
  "values_buf terminal_storage = [[Finite (1 / 2), Finite (1 / 2)]]"
  "terminateds terminal_storage = [[Finite 0, Finite 0], [Finite 1, Finite 1]]"
  "advantages terminal_storage = [[NaN, NaN]]"
  by (simp_all add: terminal_storage_def)

lemma terminal_storage_flags:
  "\<forall>e < num_envs terminal_storage. last (terminateds terminal_storage) ! e = Finite 1"
  by (simp add: terminal_fields less_Suc_eq numeral_2_eq_2)

lemma half_difference: "fp_sub f32 (Finite 1) (Finite (1 / 2)) = Finite (1 / 2)"
  by (simp add: fp_sub_def fp_add_def fp_neg_def)

theorem gae_terminal_boundary_witness:
  "compute_returns_and_advantages exact_reductions terminal_storage [Finite 100, Finite 100]
     = compute_returns_and_advantages exact_reductions terminal_storage [Finite 7] \<and>
   (\<exists>adv. gae_advantages terminal_storage [Finite 100, Finite 100] = Inr adv \<and>
      adv ! 0 ! 0 = Finite (1 / 2) \<and> adv ! 0 ! 1 = Finite (1 / 2))"
proof -
  have fin: "\<forall>x \<in> set [Finite 100, Finite 100] \<union> set [Finite 7].
      finite_fp (fp_mul f32 (cast32 (discount terminal_storage)) x)"
    using example_bootstrap_finite [of 100] example_bootstrap_finite [of 7]
    by (simp add: terminal_fields)
  have c: "finite_fp (cast32 (fp_mul f64 (discount terminal_storage) (gae_lambda terminal_storage)))"
    using example_discount_lambda by (simp only: terminal_fields)
  have s1: "length [Finite 100, Finite 100] = num_envs terminal_storage \<or>
      length [Finite 100, Finite 100] = 1"
    and s2: "length [Finite 7] = num_envs terminal_storage \<or> length [Finite 7] = 1"
    by (simp_all add: terminal_fields)
  show ?thesis
    using gae_terminal_boundary [OF wf_terminal_storage terminal_storage_flags s1 s2 fin,
        of exact_reductions] c
    by (auto simp: terminal_fields half_difference)
qed

lemma terminal_storage_gae:
  "gae_advantages terminal_storage [Finite 100, Finite 100]
     = Inr [[Finite (1 / 2), Finite (1 / 2)]]"
proof -
  let ?lv = "[Finite 100, Finite 100]"
  have fin: "\<forall>x \<in> set ?lv \<union> set ?lv.
      finite_fp (fp_mul f32 (cast32 (discount terminal_storage)) x)"
    using example_bootstrap_finite [of 100] by (simp add: terminal_fields)
  then have fin1: "\<forall>x \<in> set ?lv.
      finite_fp (fp_mul f32 (cast32 (discount terminal_storage)) x)"
    by simp
  have c: "finite_fp (cast32 (fp_mul f64 (discount terminal_storage) (gae_lambda terminal_storage)))"
    using example_discount_lambda by (simp only: terminal_fields)
  have sh: "length ?lv = num_envs terminal_storage \<or> length ?lv = 1"
    by (simp add: terminal_fields)
  have T: "0 < num_steps terminal_storage" and len:
      "length (advantages terminal_storage) = num_steps terminal_storage"
    by (simp_all add: terminal_fields)
  from gae_advantages_terminal [OF terminal_storage_flags sh sh fin] obtain adv where
      adv: "gae_advantages terminal_storage ?lv = Inr adv"
    by blast
  have entry: "adv ! 0 ! e = Finite (1 / 2)" if "e < 2" for e
  proof -
    have e: "e < num_envs terminal_storage" using that by (simp add: terminal_fields)
    have r: "is_f32 (rewards terminal_storage ! (num_steps terminal_storage - 1) ! e)"
      using that by (auto simp: terminal_fields less_Suc_eq numeral_2_eq_2)
    show ?thesis
      using gae_advantages_last_frame [OF T len terminal_storage_flags sh fin1 c e r adv] that
      by (auto simp: terminal_fields half_difference less_Suc_eq numeral_2_eq_2)
  qed
  have "adv = gae_loop terminal_storage ?lv (Suc 0) [Finite 0, Finite 0] [[NaN, NaN]]"
    using adv
    by (simp add: gae_advantages_def broadcast_envs_def bind_err_def terminal_fields
        numeral_2_eq_2)
  then have "adv = [gae_body terminal_storage ?lv 0 [Finite 0, Finite 0]]"
    by (simp add: Let_def)
  moreover have "length (gae_body terminal_storage ?lv 0 [Finite 0, Finite 0]) = 2"
    by (simp add: length_gae_body terminal_fields)
  ultimately obtain a b where ab: "adv = [[a, b]]"
    by (metis (no_types, opaque_lifting) length_0_conv length_Suc_conv numeral_2_eq_2)
  with entry [of 0] entry [of 1] have "a = Finite (1 / 2)" "b = Finite (1 / 2)"
    by simp_all
  with adv ab show ?thesis by simp
qed

lemma exact_reductions_example:
  "tensor_mean exact_reductions [Finite (1 / 2), Finite (1 / 2)] = Finite (1 / 2)"
  "tensor_std exact_reductions [Finite (1 / 2), Finite (1 / 2)] = Finite 0"
  by (simp_all add: exact_reductions_def exact_mean_def exact_std_def exact_sum_def fp_add_def
      fp_sub_def fp_neg_def fp_mul_def fp_div_def fp_sqrt_def cast32_def)

lemma standardize_degenerate:
  "standardize (Finite m) (Finite 0) (Finite m) = Finite 0"
proof -
  from epsilon32 obtain z where z: "cast32 (f64 (1 / 100000)) = Finite z" and pos: "0 < z"
      and id: "f32 z = Finite z"
    by blast
  show ?thesis
    using pos id by (simp add: standardize_def z fp_sub_def fp_add_def fp_neg_def fp_div_def)
qed

text \<open>
  The claim C4 as stated fails for the stored advantage: with the claim's numbers in two
  environments, both advantages of the loop are \<open>0.5\<close>, their mean is \<open>0.5\<close> and their
  standard deviation \<open>0\<close>, so the method stores \<open>(0.5 - 0.5) / (0 + 1e-5) = 0\<close> at
  \<open>T - 1\<close>.
\<close>

theorem standardized_advantage_not_raw:
  "last (terminateds terminal_storage) = [Finite 1, Finite 1] \<and>
   discount terminal_storage = f64 (99 / 100) \<and> gae_lambda terminal_storage = f64 (95 / 100) \<and>
   rewards terminal_storage ! (num_steps terminal_storage - 1) = [Finite 1, Finite 1] \<and>
   values_buf terminal_storage ! (num_steps terminal_storage - 1)
     = [Finite (1 / 2), Finite (1 / 2)] \<and>
   compute_returns_and_advantages exact_reductions terminal_storage [Finite 100, Finite 100]
     = Inr (terminal_storage\<lparr> returns := [[Finite 1, Finite 1]],
                              advantages := [[Finite 0, Finite 0]] \<rparr>) \<and>
   Finite 0 \<noteq> Finite (1 - 1 / 2)"
  by (simp add: compute_returns_and_advantages_def terminal_storage_gae bind_err_def Let_def
      exact_reductions_example standardize_degenerate terminal_fields fp_add_def)

text \<open>
  The finiteness of the bootstrap matters: the loop multiplies \<open>discount * last_values\<close>
  by the zero \<open>1 - terminateds[T]\<close>, and an infinity times zero is NaN. So does its
  shape: a bootstrap of three entries for two environments raises.
\<close>

lemma gae_entry_infinite:
  assumes "0 < d"
  shows "fp_add f32
     (fp_sub f32 (fp_add f32 r (fp_mul f32 (fp_mul f32 (Finite d) PosInf) (Finite 0))) v) x
     = NaN"
  using assms
  by (simp add: fp_mul_def is_negative_def)
     (simp add: fp_add_def fp_sub_def fp_neg_def split: fp.splits)

lemma infinite_bootstrap_gives_nan:
  "gae_advantages terminal_storage [PosInf, PosInf] = Inr [[NaN, NaN]]"
proof -
  from example_discount obtain d where d: "cast32 (discount terminal_storage) = Finite d"
      and lo: "1 / 2 \<le> d"
    unfolding terminal_fields by blast
  from lo have pos: "0 < d" by simp
  have upt: "[0..<2] = [0, Suc 0]" by (simp add: upt_rec)
  have "gae_body terminal_storage [PosInf, PosInf] 0 [Finite 0, Finite 0] = [NaN, NaN]"
    unfolding gae_body_def Let_def
    by (simp add: terminal_fields(1,2,5,6,7) upt d gae_entry_infinite [OF pos])
  then show ?thesis
    by (simp add: gae_advantages_def broadcast_envs_def bind_err_def terminal_fields
        numeral_2_eq_2 Let_def)
qed

lemma ill_shaped_bootstrap_raises:
  "compute_returns_and_advantages red terminal_storage [Finite 1, Finite 2, Finite 3]
     = Inl RuntimeError"
  by (simp add: compute_returns_and_advantages_def gae_advantages_def broadcast_envs_def
      bind_err_def terminal_fields)

section \<open>Properties of VanillaRolloutStorage.add and reset\<close>

lemma bind_err_Inr [simp]: "bind_err (Inr x) f = f x"
  by (simp add: bind_err_def)

lemma bind_err_Inl [simp]: "bind_err (Inl e) f = Inl e"
  by (simp add: bind_err_def)

lemma add_all_snoc:
  "add_all s (trs @ [tr]) = bind_err (add_all s trs) (\<lambda>s'. add s' tr)"
  by (induction trs arbitrary: s) (auto simp: bind_err_def split: sum.splits)

lemma copy_frame_same_length:
  "i < length buf \<Longrightarrow> length src = length (buf ! i) \<Longrightarrow> copy_frame buf i src = Inr (buf[i := src])"
  by (simp add: copy_frame_def)

lemma shaped_nth: "shaped t n xs \<Longrightarrow> i < t \<Longrightarrow> length (xs ! i) = n"
  by (simp add: shaped_def list_all_length)

lemma shaped_length: "shaped t n xs \<Longrightarrow> length xs = t"
  by (simp add: shaped_def)

lemma shaped_update: "shaped t n xs \<Longrightarrow> length row = n \<Longrightarrow> shaped t n (xs[i := row])"
  by (auto simp: shaped_def list_all_iff dest!: set_update_subset_insert [THEN subsetD])

lemma copy_frame_shaped:
  "shaped t n buf \<Longrightarrow> i < t \<Longrightarrow> length src = n \<Longrightarrow> copy_frame buf i src = Inr (buf[i := src])"
  by (simp add: copy_frame_same_length shaped_nth shaped_length)

lemma add_wf:
  assumes "wf_storage s" and "global_step s < num_steps s" and "transition_for (num_envs s) tr"
  shows "add s tr =
     Inr (s\<lparr> obs := (obs s)[global_step s := t_obs tr],
             actions := (actions s)[global_step s := t_actions tr],
             rewards := (rewards s)[global_step s := t_rewards tr],
             terminateds := (terminateds s)[global_step s + 1 := t_terminateds tr],
             truncateds := (truncateds s)[global_step s + 1 := t_truncateds tr],
             log_probs := (log_probs s)[global_step s := t_log_probs tr],
             values_buf := (values_buf s)[global_step s := t_values tr],
             global_step := (global_step s + 1) mod num_steps s \<rparr>)"
proof -
  let ?g = "global_step s"
  from assms(2) have g1: "?g + 1 < Suc (num_steps s)" by simp
  have c1: "copy_frame (obs s) ?g (t_obs tr) = Inr ((obs s)[?g := t_obs tr])"
    using assms unfolding wf_storage_def transition_for_def
    by (intro copy_frame_shaped [of "num_steps s" "num_envs s"]) simp_all
  have c2: "copy_frame (actions s) ?g (t_actions tr) = Inr ((actions s)[?g := t_actions tr])"
    using assms unfolding wf_storage_def transition_for_def
    by (intro copy_frame_shaped [of "num_steps s" "num_envs s"]) simp_all
  have c3: "copy_frame (rewards s) ?g (t_rewards tr) = Inr ((rewards s)[?g := t_rewards tr])"
    using assms unfolding wf_storage_def transition_for_def
    by (intro copy_frame_shaped [of "num_steps s" "num_envs s"]) simp_all
  have c4: "copy_frame (terminateds s) (?g + 1) (t_terminateds tr)
      = Inr ((terminateds s)[?g + 1 := t_terminateds tr])"
    using assms g1 unfolding wf_storage_def transition_for_def
    by (intro copy_frame_shaped [of "Suc (num_steps s)" "num_envs s"]) simp_all
  have c5: "copy_frame (truncateds s) (?g + 1) (t_truncateds tr)
      = Inr ((truncateds s)[?g + 1 := t_truncateds tr])"
    using assms g1 unfolding wf_storage_def transition_for_def
    by (intro copy_frame_shaped [of "Suc (num_steps s)" "num_envs s"]) simp_all
  have c6: "copy_frame (log_probs s) ?g (t_log_probs tr)
      = Inr ((log_probs s)[?g := t_log_probs tr])"
    using assms unfolding wf_storage_def transition_for_def
    by (intro copy_frame_shaped [of "num_steps s" "num_envs s"]) simp_all
  have c7: "copy_frame (values_buf s) ?g (t_values tr)
      = Inr ((values_buf s)[?g := t_values tr])"
    using assms unfolding wf_storage_def transition_for_def
    by (intro copy_frame_shaped [of "num_steps s" "num_envs s"]) simp_all
  from assms(2) have "num_steps s \<noteq> 0" by simp
  then show ?thesis
    unfolding add_def c1 c2 c3 c4 c5 c6 c7 by simp
qed

lemma add_preserves_wf:
  assumes "wf_storage s" and "global_step s < num_steps s" and "transition_for (num_envs s) tr"
    and "add s tr = Inr s'"
  shows "wf_storage s' \<and> num_steps s' = num_steps s \<and> num_envs s' = num_envs s"
  using assms(1,3,4) unfolding add_wf [OF assms(1-3)]
  by (auto simp: wf_storage_def transition_for_def shaped_update)


lemma add_all_cycle:
  assumes "wf_storage s" and "global_step s = 0" and "length trs \<le> num_steps s"
    and "\<forall>tr \<in> set trs. transition_for (num_envs s) tr"
  shows "\<exists>s'. add_all s trs = Inr s' \<and> wf_storage s' \<and>
     num_steps s' = num_steps s \<and> num_envs s' = num_envs s \<and>
     global_step s' = length trs mod num_steps s \<and>
     (trs \<noteq> [] \<longrightarrow>
        terminateds s' ! length trs = t_terminateds (last trs) \<and>
        truncateds s' ! length trs = t_truncateds (last trs) \<and>
        obs s' ! 0 = t_obs (hd trs) \<and>
        obs s' ! (length trs - 1) = t_obs (last trs))"
  using assms(3,4)
proof (induction trs rule: rev_induct)
  case Nil
  with assms(1,2) show ?case by simp
next
  case (snoc tr trs)
  let ?k = "length trs"
  from snoc.prems have k: "?k < num_steps s" and tr: "transition_for (num_envs s) tr" by simp_all
  from snoc obtain s1 where s1: "add_all s trs = Inr s1" "wf_storage s1"
      "num_steps s1 = num_steps s" "num_envs s1 = num_envs s" "global_step s1 = ?k mod num_steps s"
      and first: "trs \<noteq> [] \<longrightarrow> obs s1 ! 0 = t_obs (hd trs)"
    by auto
  from s1(5) k have g: "global_step s1 = ?k" by simp
  have pre: "global_step s1 < num_steps s1" "transition_for (num_envs s1) tr"
    using g k tr s1(3,4) by simp_all
  note a = add_wf [OF s1(2) pre]
  obtain s2 where s2: "add s1 tr = Inr s2" using a by simp
  have wf2: "wf_storage s2 \<and> num_steps s2 = num_steps s1 \<and> num_envs s2 = num_envs s1"
    using add_preserves_wf [OF s1(2) pre s2] .
  have lo: "length (obs s1) = num_steps s" "length (terminateds s1) = Suc (num_steps s)"
      "length (truncateds s1) = Suc (num_steps s)"
    using s1(2,3) by (simp_all add: wf_storage_def shaped_def)
  from s2 a have s2_eq: "s2 = s1\<lparr> obs := (obs s1)[global_step s1 := t_obs tr],
             actions := (actions s1)[global_step s1 := t_actions tr],
             rewards := (rewards s1)[global_step s1 := t_rewards tr],
             terminateds := (terminateds s1)[global_step s1 + 1 := t_terminateds tr],
             truncateds := (truncateds s1)[global_step s1 + 1 := t_truncateds tr],
             log_probs := (log_probs s1)[global_step s1 := t_log_probs tr],
             values_buf := (values_buf s1)[global_step s1 := t_values tr],
             global_step := (global_step s1 + 1) mod num_steps s1 \<rparr>"
    by simp
  have t: "terminateds s2 ! Suc ?k = t_terminateds tr" "truncateds s2 ! Suc ?k = t_truncateds tr"
      "obs s2 ! ?k = t_obs tr"
    using k lo unfolding s2_eq g by simp_all
  have o: "obs s2 ! 0 = t_obs (hd (trs @ [tr]))"
  proof (cases "trs = []")
    case True
    with t(3) show ?thesis by simp
  next
    case False
    then have "obs s2 ! 0 = obs s1 ! 0" unfolding s2_eq g by simp
    with first False show ?thesis by simp
  qed
  have gs: "global_step s2 = length (trs @ [tr]) mod num_steps s"
    unfolding s2_eq g using s1(3) by simp
  have "add_all s (trs @ [tr]) = Inr s2"
    using s1(1) s2 by (simp add: add_all_snoc)
  with wf2 s1(3,4) t o gs show ?case by simp
qed

lemma reset_wf:
  assumes "wf_storage s"
  shows "reset s = Inr (s\<lparr> terminateds := (terminateds s)[0 := terminateds s ! num_steps s],
                           truncateds := (truncateds s)[0 := truncateds s ! num_steps s] \<rparr>)"
proof -
  from assms have te: "shaped (Suc (num_steps s)) (num_envs s) (terminateds s)"
    and tr: "shaped (Suc (num_steps s)) (num_envs s) (truncateds s)"
    by (simp_all add: wf_storage_def)
  from te tr have ne: "terminateds s \<noteq> []" "truncateds s \<noteq> []"
    by (auto simp: shaped_def)
  from te tr ne have l: "last (terminateds s) = terminateds s ! num_steps s"
      "last (truncateds s) = truncateds s ! num_steps s"
    by (simp_all add: last_conv_nth shaped_def)
  have "copy_frame (terminateds s) 0 (terminateds s ! num_steps s)
      = Inr ((terminateds s)[0 := terminateds s ! num_steps s])"
    using te by (intro copy_frame_shaped [of "Suc (num_steps s)" "num_envs s"])
      (simp_all add: shaped_nth)
  moreover have "copy_frame (truncateds s) 0 (truncateds s ! num_steps s)
      = Inr ((truncateds s)[0 := truncateds s ! num_steps s])"
    using tr by (intro copy_frame_shaped [of "Suc (num_steps s)" "num_envs s"])
      (simp_all add: shaped_nth)
  ultimately show ?thesis
    using ne l by (simp add: reset_def)
qed

text \<open>
  Claim C7 (rollout buffer overlap), as amended. On a storage with the shapes of
  \<^verbatim>\<open>__init__\<close> whose cursor is at 0, after one full cycle of \<open>T = num_steps\<close> calls of
  \<^verbatim>\<open>add\<close> followed by \<^verbatim>\<open>reset\<close>, frame 0 of \<open>terminateds\<close> and of
  \<open>truncateds\<close> equals their frame \<open>T\<close>, which holds the flags of the cycle's last
  \<^verbatim>\<open>add\<close>. The \<open>obs\<close> buffer has the frames \<open>0..T-1\<close> only and \<^verbatim>\<open>reset\<close> leaves it
  as it is: its frame 0 is the observation of the cycle's first \<^verbatim>\<open>add\<close>, and the
  observation of the last \<^verbatim>\<open>add\<close> is at frame \<open>T - 1\<close>.
\<close>

theorem reset_overlap_frame:
  assumes "wf_storage s" and "global_step s = 0" and "0 < num_steps s"
    and "length trs = num_steps s"
    and "\<forall>tr \<in> set trs. transition_for (num_envs s) tr"
  shows "\<exists>s' s''. add_all s trs = Inr s' \<and> reset s' = Inr s'' \<and>
     terminateds s' ! num_steps s = t_terminateds (last trs) \<and>
     truncateds s' ! num_steps s = t_truncateds (last trs) \<and>
     terminateds s'' ! 0 = terminateds s' ! num_steps s \<and>
     truncateds s'' ! 0 = truncateds s' ! num_steps s \<and>
     length (obs s'') = num_steps s \<and>
     obs s'' = obs s' \<and>
     obs s'' ! 0 = t_obs (hd trs) \<and>
     obs s'' ! (num_steps s - 1) = t_obs (last trs) \<and>
     global_step s'' = 0"
proof -
  from assms(3,4) have ne: "trs \<noteq> []" by auto
  from add_all_cycle [OF assms(1,2) _ assms(5)] assms(4) ne
  obtain s' where s': "add_all s trs = Inr s'" "wf_storage s'" "num_steps s' = num_steps s"
      "global_step s' = 0"
      "terminateds s' ! num_steps s = t_terminateds (last trs)"
      "truncateds s' ! num_steps s = t_truncateds (last trs)"
      "obs s' ! 0 = t_obs (hd trs)" "obs s' ! (num_steps s - 1) = t_obs (last trs)"
    by auto
  let ?s'' = "s'\<lparr> terminateds := (terminateds s')[0 := terminateds s' ! num_steps s'],
                  truncateds := (truncateds s')[0 := truncateds s' ! num_steps s'] \<rparr>"
  have r: "reset s' = Inr ?s''" by (rule reset_wf [OF s'(2)])
  have len: "length (terminateds s') = Suc (num_steps s)" "length (truncateds s') = Suc (num_steps s)"
      "length (obs s') = num_steps s"
    using s'(2,3) by (simp_all add: wf_storage_def shaped_def)
  show ?thesis
    using s' r len by (intro exI [of _ s'] exI [of _ ?s'']) simp
qed


lemma upt_2: "[0..<2] = [0, 1]" and upt_3: "[0..<3] = [0, 1, 2]" and upt_1: "[0..<1] = [0]"
  by code_simp+

lemma two_step_storage_eq:
  "two_step_storage =
     \<lparr> num_steps = 2, num_envs = 1, discount = f64 (99 / 100), gae_lambda = f64 (95 / 100),
       action_dim = 1,
       obs = [[0], [0]], actions = [[0], [0]], rewards = [[Finite 0], [Finite 0]],
       terminateds = [[Finite 0], [Finite 0], [Finite 0]],
       truncateds = [[Finite 0], [Finite 0], [Finite 0]],
       log_probs = [[Finite 0], [Finite 0]], values_buf = [[Finite 0], [Finite 0]],
       returns = [[NaN], [NaN]], advantages = [[NaN], [NaN]],
       global_step = 0 \<rparr>"
  by (simp add: two_step_storage_def VanillaRolloutStorage_init_def zero_memory_def
      torch_empty_def upt_1 upt_2 upt_3)

theorem reset_overlap_frame_witness:
  "\<exists>s' s''. add_all two_step_storage [first_add, second_add] = Inr s' \<and> reset s' = Inr s'' \<and>
     terminateds s'' ! 0 = [Finite 1] \<and> truncateds s'' ! 0 = [Finite 1] \<and>
     obs s'' ! 0 = [10] \<and> obs s'' ! 1 = [20] \<and> length (obs s'') = 2"
proof -
  have "wf_storage two_step_storage" "global_step two_step_storage = 0"
      "0 < num_steps two_step_storage"
      "length [first_add, second_add] = num_steps two_step_storage"
      "\<forall>tr \<in> set [first_add, second_add]. transition_for (num_envs two_step_storage) tr"
    by (simp_all add: two_step_storage_eq wf_storage_def shaped_def transition_for_def
        first_add_def second_add_def)
  from reset_overlap_frame [OF this]
  obtain s' s'' where "add_all two_step_storage [first_add, second_add] = Inr s'"
      "reset s' = Inr s''"
      "terminateds s'' ! 0 = t_terminateds second_add"
      "truncateds s'' ! 0 = t_truncateds second_add"
      "obs s'' ! 0 = t_obs first_add" "obs s'' ! 1 = t_obs second_add"
      "length (obs s'') = 2"
    by (auto simp: two_step_storage_eq)
  then show ?thesis
    by (intro exI [of _ s'] exI [of _ s'']) (simp add: first_add_def second_add_def)
qed

text \<open>
  The claim C7 as stated fails for \<open>obs\<close>: after construction, two \<^verbatim>\<open>add\<close> calls with
  the observations 10 and 20, and \<^verbatim>\<open>reset\<close>, frame 0 of \<open>obs\<close> is still the first
  observation 10, not the last frame's 20, while frame 0 of \<open>terminateds\<close> and
  \<open>truncateds\<close> carries the last flags.
\<close>

theorem reset_keeps_first_obs:
  "map_sum id obs two_step_cycle = Inr [[10], [20]] \<and>
   map_sum id terminateds two_step_cycle = Inr [[Finite 1], [Finite 0], [Finite 1]] \<and>
   map_sum id truncateds two_step_cycle = Inr [[Finite 1], [Finite 0], [Finite 1]] \<and>
   t_obs second_add = [20] \<and> t_terminateds second_add = [Finite 1] \<and> [10 :: nat] \<noteq> [20]"
  by (simp add: two_step_cycle_def VanillaRolloutStorage_init_def zero_memory_def
      torch_empty_def upt_1 upt_2 upt_3 add_def copy_frame_def reset_def
      first_add_def second_add_def)


text \<open>
  The shapes of \<open>wf_storage\<close> are an invariant of the storage: \<^verbatim>\<open>__init__\<close>
  establishes them, and \<^verbatim>\<open>add\<close>, \<^verbatim>\<open>reset\<close> and
  \<^verbatim>\<open>compute_returns_and_advantages\<close> keep them.
\<close>

lemma shaped_torch_empty: "shaped t n (torch_empty t n mem)"
  by (simp add: shaped_def torch_empty_def list_all_iff)

lemma VanillaRolloutStorage_init_wf:
  assumes "VanillaRolloutStorage_init mem action_shape action_type n_steps n_envs disc lam = Inr s"
  shows "wf_storage s \<and> num_steps s = n_steps \<and> num_envs s = n_envs \<and> global_step s = 0"
proof -
  have z: "shaped (Suc n_steps) n_envs ((torch_empty (n_steps + 1) n_envs f)[0 := replicate n_envs x])"
    for f :: "nat \<Rightarrow> nat \<Rightarrow> fp" and x
    using shaped_torch_empty [of "Suc n_steps" n_envs f]
    by (intro shaped_update) simp_all
  show ?thesis
    using assms z
    by (auto simp: VanillaRolloutStorage_init_def wf_storage_def shaped_torch_empty Let_def
        split: if_splits list.splits)
qed

lemma shaped_gae_loop:
  assumes "shaped t (num_envs s) adv"
  shows "shaped t (num_envs s) (gae_loop s lv k gae adv)"
  using assms
proof (induction k arbitrary: gae adv)
  case 0
  then show ?case by simp
next
  case (Suc k)
  have "shaped t (num_envs s) (adv[k := gae_body s lv k gae])"
    using Suc.prems by (intro shaped_update) (simp_all add: length_gae_body)
  from Suc.IH [OF this] show ?case by (simp add: Let_def)
qed

lemma shaped_map2:
  assumes "shaped t n xs" and "shaped t n ys"
  shows "shaped t n (map2 (map2 f) xs ys)"
  using assms by (auto simp: shaped_def list_all_iff dest!: set_zip_leftD set_zip_rightD
      elim!: in_set_zipE)

lemma compute_returns_and_advantages_wf:
  assumes "wf_storage s" and "compute_returns_and_advantages red s lv = Inr s'"
  shows "wf_storage s'"
proof -
  from assms(2) obtain adv where adv: "gae_advantages s lv = Inr adv"
    by (cases "gae_advantages s lv") (simp_all add: compute_returns_and_advantages_def)
  have a: "shaped (num_steps s) (num_envs s) (advantages s)"
    and v: "shaped (num_steps s) (num_envs s) (values_buf s)"
    using assms(1) by (simp_all add: wf_storage_def)
  have sh: "shaped (num_steps s) (num_envs s) adv"
    using adv a shaped_gae_loop [OF a]
    by (auto simp: gae_advantages_def bind_err_def split: if_splits sum.splits)
  have r: "shaped (num_steps s) (num_envs s) (map2 (map2 (fp_add f32)) adv (values_buf s))"
    using sh v by (rule shaped_map2)
  have st: "shaped (num_steps s) (num_envs s) (map (map g) adv)" for g :: "fp \<Rightarrow> fp"
    using sh by (simp add: shaped_def list_all_iff)
  from assms(2) have "s' = s\<lparr> returns := map2 (map2 (fp_add f32)) adv (values_buf s),
      advantages := map (map (standardize (tensor_mean red (concat adv))
                               (tensor_std red (concat adv)))) adv \<rparr>"
    by (simp add: compute_returns_and_advantages_def adv Let_def)
  with assms(1) r st show ?thesis
    by (simp add: wf_storage_def)
qed


section \<open>Properties of the DistributedStorage constructor\<close>

lemma DistributedStorage_init_allocates:
  assumes "action_type = ''Discrete'' \<or> action_type = ''Box''" and "action_shape \<noteq> []"
  shows "\<exists>ds. DistributedStorage_init mem obs_shape action_shape action_type n_steps n_storages
        batch_size allocated = (Inr ds, allocated + n_storages * 10) \<and>
        map fst (storages ds) = [''obs'', ''reward'', ''terminated'', ''truncated'',
          ''episode_return'', ''episode_step'', ''last_action'', ''policy_logits'',
          ''baseline'', ''action''] \<and>
        (\<forall>slots \<in> snd ` set (storages ds). length slots = n_storages \<and>
           (\<forall>tensor \<in> set slots. length tensor = n_steps + 1))"
  using assms
  by (auto simp: DistributedStorage_init_def action_dim_of_def specs_def split: list.splits)

text \<open>
  Claim C10, as amended. For every action type other than \<open>Discrete\<close> and \<open>Box\<close> the
  constructor raises NotImplementedError and the count of allocated shared-memory tensors
  is unchanged: nothing was allocated. For \<open>Discrete\<close> the action-type branch does not
  raise. For \<open>Box\<close> the branch never raises NotImplementedError; it evaluates
  \<^verbatim>\<open>action_shape[0]\<close>, which raises IndexError exactly when \<open>action_shape\<close> is empty.
\<close>

theorem init_action_type_branch:
  "(action_type \<noteq> ''Discrete'' \<and> action_type \<noteq> ''Box'' \<longrightarrow>
      DistributedStorage_init mem obs_shape action_shape action_type n_steps n_storages
        batch_size allocated = (Inl NotImplementedError, allocated)) \<and>
   (action_type = ''Discrete'' \<longrightarrow> action_dim_of action_type action_shape = Inr 1) \<and>
   (action_type = ''Box'' \<longrightarrow>
      action_dim_of action_type action_shape
        = (if action_shape = [] then Inl IndexError else Inr (hd action_shape))) \<and>
   (action_type = ''Discrete'' \<or> action_type = ''Box'' \<longrightarrow>
      fst (DistributedStorage_init mem obs_shape action_shape action_type n_steps n_storages
        batch_size allocated) \<noteq> Inl NotImplementedError)"
  by (auto simp: DistributedStorage_init_def action_dim_of_def specs_def split: list.splits)

theorem init_action_type_branch_witness:
  "DistributedStorage_init (\<lambda>key slot t. 0 :: nat) [4] [3] ''MultiBinary'' 5 2 1 0
     = (Inl NotImplementedError, 0) \<and>
   action_dim_of ''Discrete'' [3] = Inr 1 \<and>
   action_dim_of ''Box'' [3] = Inr 3 \<and>
   fst (DistributedStorage_init (\<lambda>key slot t. 0 :: nat) [4] [3] ''Box'' 5 2 1 0)
     \<noteq> Inl NotImplementedError"
  using init_action_type_branch [of "''MultiBinary''" "\<lambda>key slot t. 0 :: nat" "[4]" "[3]" 5 2 1 0]
    init_action_type_branch [of "''Discrete''" "\<lambda>key slot t. 0 :: nat" "[4]" "[3]" 5 2 1 0]
    init_action_type_branch [of "''Box''" "\<lambda>key slot t. 0 :: nat" "[4]" "[3]" 5 2 1 0]
  by simp

text \<open>
  The claim C10 as stated fails for \<open>Box\<close> with an empty action shape: the branch
  itself raises, with IndexError.
\<close>

theorem box_empty_shape_raises:
  "action_dim_of ''Box'' [] = Inl IndexError \<and>
   DistributedStorage_init (\<lambda>key slot t. 0 :: nat) [4] [] ''Box'' 5 2 1 0 = (Inl IndexError, 0)"
  by (simp add: DistributedStorage_init_def action_dim_of_def)

section \<open>Properties of the environment adapter\<close>

text \<open>
  Claim C6 (episode boundary accounting), as amended. For an adapter whose counters hold
  the return \<open>r\<close> and the step count \<open>n\<close>, a \<^verbatim>\<open>step\<close> whose environment step reports
  terminated or truncated returns a frame whose \<open>episode_return\<close> reads the float32 sum
  of \<open>r\<close> and the reward converted to float32, which is \<open>r + reward\<close> when the reward
  and that sum are float32 numbers, and whose \<open>episode_step\<close> reads \<open>n + 1\<close> (int32
  arithmetic; the signed value is \<open>sint n + 1\<close> below the int32 maximum), while the
  adapter's own counters are new tensors that read zero.
\<close>

theorem step_episode_boundary:
  assumes "episode_return self = Some r_ref" and "episode_step self = Some s_ref"
    and "r_ref < length (float_cells m)" and "s_ref < length (int32_cells m)"
    and "float_cells m ! r_ref = r" and "int32_cells m ! s_ref = n"
    and "gym_step gy (env self) action = ((ob, reward, terminated, truncated), g1)"
    and "terminated \<or> truncated"
  shows "\<exists>frame self' m'. Environment_step gy self m action = Inr (frame, self', m') \<and>
     float_cells m' ! f_episode_return frame = fp_add f32 r (cast32 reward) \<and>
     (\<forall>a b. r = Finite a \<longrightarrow> reward = Finite b \<longrightarrow> f32 b = Finite b \<longrightarrow>
        f32 (a + b) = Finite (a + b) \<longrightarrow>
        float_cells m' ! f_episode_return frame = Finite (a + b)) \<and>
     int32_cells m' ! f_episode_step frame = n + 1 \<and>
     (sint n < 2 ^ 31 - 1 \<longrightarrow> sint (int32_cells m' ! f_episode_step frame) = sint n + 1) \<and>
     (\<exists>r_ref' s_ref'. episode_return self' = Some r_ref' \<and> episode_step self' = Some s_ref' \<and>
        float_cells m' ! r_ref' = Finite 0 \<and> int32_cells m' ! s_ref' = 0) \<and>
     f_reward frame = cast32 reward \<and>
     f_terminated frame = (if terminated then 1 else 0) \<and>
     f_truncated frame = (if truncated then 1 else 0)"
proof -
  have s: "sint (n + 1) = sint n + 1" if "sint n < 2 ^ 31 - 1" for n :: "32 word"
  proof -
    have "sint (n + 1) = signed_take_bit 31 (sint n + 1)"
      by (simp add: sint_word_add)
    also have "\<dots> = sint n + 1"
      using that sint_ge [of n] by (intro signed_take_bit_int_eq_self) simp_all
    finally show ?thesis .
  qed
  have e: "fp_add f32 (Finite a) (cast32 (Finite b)) = Finite (a + b)"
    if "f32 b = Finite b" and "f32 (a + b) = Finite (a + b)" for a b
    using that by (simp add: cast32_def fp_add_def)
  show ?thesis
    using assms s e
    by (auto simp: Environment_step_def Let_def new_float_def new_int32_def nth_append
        split: prod.splits)
qed

theorem step_episode_boundary_witness:
  "\<exists>frame self' m'.
     Environment_step counting_gym \<lparr> env = 1, episode_return = Some 0, episode_step = Some 0 \<rparr>
       \<lparr> float_cells = [Finite 1], int32_cells = [1] \<rparr> (Int64 0) = Inr (frame, self', m') \<and>
     float_cells m' ! f_episode_return frame = Finite 2 \<and>
     int32_cells m' ! f_episode_step frame = 2 \<and>
     sint (int32_cells m' ! f_episode_step frame) = 2 \<and>
     episode_return self' = Some 1 \<and> episode_step self' = Some 1 \<and>
     float_cells m' ! 1 = Finite 0 \<and> int32_cells m' ! 1 = 0 \<and>
     f_terminated frame = 1"
  using step_episode_boundary [of "\<lparr> env = 1, episode_return = Some 0, episode_step = Some 0 \<rparr>"
      0 0 "\<lparr> float_cells = [Finite 1], int32_cells = [1] \<rparr>" "Finite 1" 1 counting_gym "Int64 0"
      2 "Finite 1" True False 2]
  by (auto simp: counting_gym_def Environment_step_def new_float_def new_int32_def
      cast32_def fp_add_def)

text \<open>
  The claim C6 as stated fails for \<open>episode_return\<close>: the counter is a float32 tensor,
  and float32 has 24 significant bits. With the return \<open>r = 2 ^ 24 = 16777216\<close> and the
  reward \<open>1\<close> the sum \<open>16777217\<close> is no float32 number and rounds to \<open>16777216\<close>; the
  frame reads \<open>r\<close>, not \<open>r + 1\<close>.
\<close>

theorem episode_return_rounds:
  "episode_return late_environment = Some 0 \<and>
   float_cells late_memory ! 0 = Finite 16777216 \<and>
   fst (gym_step counting_gym (env late_environment) (Int64 0)) = (2, Finite 1, True, False) \<and>
   (\<exists>frame self' m'.
      Environment_step counting_gym late_environment late_memory (Int64 0)
        = Inr (frame, self', m') \<and>
      float_cells m' ! f_episode_return frame = Finite 16777216) \<and>
   Finite 16777216 \<noteq> Finite (16777216 + 1)"
  by (simp add: counting_gym_def Environment_step_def late_environment_def late_memory_def
      new_float_def new_int32_def cast32_def fp_add_def f32_16777217)

text \<open>
  Within an episode the returned frame shares the adapter's counter tensors: the next
  \<^verbatim>\<open>step\<close> changes what that frame reads. The actor copies the values into the pool
  before it steps again.
\<close>

lemma step_within_episode_shares_counters:
  assumes "episode_return self = Some r_ref" and "episode_step self = Some s_ref"
    and "gym_step gy (env self) action = ((ob, reward, False, False), g1)"
  shows "\<exists>frame m'. Environment_step gy self m action = Inr (frame, self\<lparr> env := g1 \<rparr>, m') \<and>
     f_episode_return frame = r_ref \<and> f_episode_step frame = s_ref"
  using assms by (simp add: Environment_step_def Let_def)

section \<open>Properties of the actor-learner system\<close>

lemma mset_concat_map_update:
  "i < length xs \<Longrightarrow>
   mset (concat (map f (xs[i := y]))) + mset (f (xs ! i)) = mset (concat (map f xs)) + mset (f y)"
proof (induction xs arbitrary: i)
  case Nil
  then show ?case by simp
next
  case (Cons x xs)
  show ?case
  proof (cases i)
    case 0
    then show ?thesis by simp
  next
    case (Suc j)
    with Cons.prems have "j < length xs" by simp
    from Cons.IH [OF this] Suc show ?thesis by (simp add: ac_simps)
  qed
qed

lemma free_indices_simps [simp]:
  "free_indices [] = []"
  "free_indices (None # q) = free_indices q"
  "free_indices (Some i # q) = i # free_indices q"
  "free_indices (q @ q') = free_indices q @ free_indices q'"
  by (simp_all add: free_indices_def)

lemma tokens_worker_update:
  assumes "w < length (workers s)" and "workers s ! w = (pc, a)"
  shows "tokens (s\<lparr> workers := (workers s)[w := (pc', a')] \<rparr>)
      + mset (worker_held pc) + mset (worker_abandoned pc)
    = tokens s + mset (worker_held pc') + mset (worker_abandoned pc')"
proof -
  let ?ws' = "(workers s)[w := (pc', a')]"
  have h: "mset (concat (map (\<lambda>w. worker_held (fst w)) ?ws')) + mset (worker_held pc)
      = mset (concat (map (\<lambda>w. worker_held (fst w)) (workers s))) + mset (worker_held pc')"
    using mset_concat_map_update [OF assms(1), of "\<lambda>w. worker_held (fst w)" "(pc', a')"]
      assms(2) by simp
  have b: "mset (concat (map (\<lambda>w. worker_abandoned (fst w)) ?ws')) + mset (worker_abandoned pc)
      = mset (concat (map (\<lambda>w. worker_abandoned (fst w)) (workers s)))
        + mset (worker_abandoned pc')"
    using mset_concat_map_update [OF assms(1), of "\<lambda>w. worker_abandoned (fst w)" "(pc', a')"]
      assms(2) by simp
  have "(mset (concat (map (\<lambda>w. worker_held (fst w)) ?ws')) + mset (worker_held pc))
      + (mset (concat (map (\<lambda>w. worker_abandoned (fst w)) ?ws')) + mset (worker_abandoned pc))
    = (mset (concat (map (\<lambda>w. worker_held (fst w)) (workers s))) + mset (worker_held pc'))
      + (mset (concat (map (\<lambda>w. worker_abandoned (fst w)) (workers s)))
        + mset (worker_abandoned pc'))"
    by (simp only: h b)
  then show ?thesis
    by (simp add: tokens_def ac_simps)
qed

lemma tokens_learner_update:
  assumes "l < length (learners s)"
  shows "tokens (s\<lparr> learners := (learners s)[l := pc'] \<rparr>)
      + mset (learner_held (learners s ! l)) + mset (learner_abandoned (learners s ! l))
    = tokens s + mset (learner_held pc') + mset (learner_abandoned pc')"
proof -
  let ?ls' = "(learners s)[l := pc']"
  have h: "mset (concat (map learner_held ?ls')) + mset (learner_held (learners s ! l))
      = mset (concat (map learner_held (learners s))) + mset (learner_held pc')"
    using mset_concat_map_update [OF assms, of learner_held pc'] by simp
  have b: "mset (concat (map learner_abandoned ?ls')) + mset (learner_abandoned (learners s ! l))
      = mset (concat (map learner_abandoned (learners s))) + mset (learner_abandoned pc')"
    using mset_concat_map_update [OF assms, of learner_abandoned pc'] by simp
  have "(mset (concat (map learner_held ?ls')) + mset (learner_held (learners s ! l)))
      + (mset (concat (map learner_abandoned ?ls')) + mset (learner_abandoned (learners s ! l)))
    = (mset (concat (map learner_held (learners s))) + mset (learner_held pc'))
      + (mset (concat (map learner_abandoned (learners s))) + mset (learner_abandoned pc'))"
    by (simp only: h b)
  then show ?thesis
    by (simp add: tokens_def ac_simps)
qed

lemma tokens_worker_step: "tokens (worker_step cfg w s) = tokens s"
proof (cases "w < length (workers s)")
  case False
  then show ?thesis by (simp add: worker_step_def)
next
  case True
  obtain pc a where wa: "workers s ! w = (pc, a)" by (cases "workers s ! w")
  note u = tokens_worker_update [OF True wa]
  show ?thesis
  proof (cases pc)
    case Claiming
    show ?thesis
    proof (cases "free_queue s")
      case Nil
      with True wa Claiming show ?thesis by (simp add: worker_step_def)
    next
      case (Cons x rest)
      show ?thesis
      proof (cases x)
        case None
        have "tokens (s\<lparr> free_queue := rest, workers := (workers s)[w := (Stopped, a)] \<rparr>)
            = tokens (s\<lparr> workers := (workers s)[w := (Stopped, a)] \<rparr>)"
          using Cons None by (simp add: tokens_def)
        with u [of Stopped a] True wa Claiming Cons None show ?thesis
          by (simp add: worker_step_def worker_held_def worker_abandoned_def)
      next
        case (Some idx)
        have "tokens (s\<lparr> free_queue := rest, workers := (workers s)[w := (Filling idx, a)] \<rparr>)
            + {#idx#} = tokens (s\<lparr> workers := (workers s)[w := (Filling idx, a)] \<rparr>)"
          using Cons Some by (simp add: tokens_def)
        with u [of "Filling idx" a] True wa Claiming Cons Some show ?thesis
          by (simp add: worker_step_def worker_held_def worker_abandoned_def)
      qed
    qed
  next
    case (Filling idx)
    obtain r p where f: "fill (cfg_gym cfg) (cfg_model cfg) (cfg_num_steps cfg) idx a (shared s)
        = (r, p)"
      by (cases "fill (cfg_gym cfg) (cfg_model cfg) (cfg_num_steps cfg) idx a (shared s)")
    have sh: "tokens (s\<lparr> shared := p, workers := ws \<rparr>) = tokens (s\<lparr> workers := ws \<rparr>)" for ws
      by (simp add: tokens_def)
    show ?thesis
    proof (cases r)
      case (Inl e)
      with u [of "Faulted idx e" a] True wa Filling f sh show ?thesis
        by (simp add: worker_step_def worker_held_def worker_abandoned_def)
    next
      case (Inr a')
      with u [of "Publishing idx" a'] True wa Filling f sh show ?thesis
        by (simp add: worker_step_def worker_held_def worker_abandoned_def)
    qed
  next
    case (Publishing idx)
    have "tokens (s\<lparr> full_queue := full_queue s @ [idx],
          workers := (workers s)[w := (Claiming, a)] \<rparr>)
        = tokens (s\<lparr> workers := (workers s)[w := (Claiming, a)] \<rparr>) + {#idx#}"
      by (simp add: tokens_def)
    with u [of Claiming a] True wa Publishing show ?thesis
      by (simp add: worker_step_def worker_held_def worker_abandoned_def)
  next
    case Stopped
    with True wa show ?thesis by (simp add: worker_step_def)
  next
    case (Faulted idx e)
    with True wa show ?thesis by (simp add: worker_step_def)
  qed
qed

lemma tokens_learner_step: "tokens (learner_step cfg l s) = tokens s"
proof (cases "l < length (learners s)")
  case False
  then show ?thesis by (simp add: learner_step_def)
next
  case True
  note u = tokens_learner_update [OF True]
  have lk: "tokens (s\<lparr> lock := b, learners := ls \<rparr>) = tokens (s\<lparr> learners := ls \<rparr>)" for b ls
    by (simp add: tokens_def)
  show ?thesis
  proof (cases "learners s ! l")
    case Idle
    with u [of "Getting []"] True lk show ?thesis
      by (simp add: learner_step_def learner_held_def learner_abandoned_def)
  next
    case (Getting indices)
    show ?thesis
    proof (cases "length indices < cfg_batch_size cfg")
      case False
      with u [of "Stacking indices"] True Getting lk show ?thesis
        by (simp add: learner_step_def learner_held_def learner_abandoned_def)
    next
      case less: True
      show ?thesis
      proof (cases "full_queue s")
        case Nil
        with True Getting less show ?thesis by (simp add: learner_step_def)
      next
        case (Cons idx rest)
        have "tokens (s\<lparr> full_queue := rest,
              learners := (learners s)[l := Getting (indices @ [idx])] \<rparr>) + {#idx#}
            = tokens (s\<lparr> learners := (learners s)[l := Getting (indices @ [idx])] \<rparr>)"
          using Cons by (simp add: tokens_def)
        with u [of "Getting (indices @ [idx])"] True Getting less Cons show ?thesis
          by (simp add: learner_step_def learner_held_def learner_abandoned_def)
      qed
    qed
  next
    case (Stacking indices)
    have f: "tokens (s\<lparr> learners := (learners s)[l := Failed indices e] \<rparr>) = tokens s" for e
      using u [of "Failed indices e"] Stacking
      by (simp add: learner_held_def learner_abandoned_def)
    have p: "tokens (s\<lparr> learners := (learners s)[l := Putting indices 0] \<rparr>) = tokens s"
      using u [of "Putting indices 0"] Stacking
      by (simp add: learner_held_def learner_abandoned_def)
    show ?thesis
      using True Stacking f p
      by (simp add: learner_step_def split: sum.splits)
  next
    case (Putting indices k)
    show ?thesis
    proof (cases "k < length indices")
      case False
      with u [of Idle] True Putting show ?thesis
        by (simp add: learner_step_def learner_held_def learner_abandoned_def)
    next
      case less: True
      then have d: "drop k indices = indices ! k # drop (k + 1) indices"
        by (simp add: Cons_nth_drop_Suc)
      have "tokens (s\<lparr> free_queue := free_queue s @ [Some (indices ! k)],
              learners := (learners s)[l := Putting indices (k + 1)] \<rparr>)
            = tokens (s\<lparr> learners := (learners s)[l := Putting indices (k + 1)] \<rparr>)
              + {#indices ! k#}"
        by (simp add: tokens_def)
      with u [of "Putting indices (k + 1)"] True Putting less d show ?thesis
        by (simp add: learner_step_def learner_held_def learner_abandoned_def)
    qed
  next
    case (Failed indices e)
    with True show ?thesis by (simp add: learner_step_def)
  qed
qed

lemma tokens_system_step: "tokens (system_step cfg ev s) = tokens s"
proof (cases ev)
  case PutSentinel
  then show ?thesis by (simp add: system_step_def tokens_def)
qed (simp_all add: system_step_def tokens_worker_step tokens_learner_step)

text \<open>
  The general invariant: with the indices left behind by the actors and the learner
  threads that died counted separately, every run keeps the multiset of slot indices.
\<close>

lemma tokens_exec: "tokens (exec cfg evs s) = tokens s"
  by (induction evs arbitrary: s) (simp_all add: tokens_system_step)

lemma tokens_initial: "tokens (initial n p actors k) = mset [0..<n]"
proof -
  have "free_indices (map Some xs) = xs" for xs :: "nat list"
    by (induction xs) simp_all
  moreover have "concat (map (\<lambda>w. worker_held (fst w)) (map (\<lambda>a. (Claiming, a)) as)) = []"
    "concat (map (\<lambda>w. worker_abandoned (fst w)) (map (\<lambda>a. (Claiming, a)) as)) = []"
    for as :: "('a, 'b, 'c) actor list"
    by (induction as) (simp_all add: worker_held_def worker_abandoned_def)
  moreover have "concat (map learner_held (replicate k Idle)) = []"
    "concat (map learner_abandoned (replicate k Idle)) = []"
    by (induction k) (simp_all add: learner_held_def learner_abandoned_def)
  ultimately show ?thesis
    by (simp add: tokens_def initial_def)
qed


text \<open>
  Claim C1 (index conservation), as amended. From the initial state with the indices
  \<open>0..S-1\<close> once each on the free queue, after any interleaving of actor steps, learner
  steps and sentinel puts, the indices on the free queue, on the full queue, held by an
  actor or a learner, and left behind by an actor or a learner thread that an exception
  ended are together exactly the indices \<open>0..S-1\<close>, each once: the list of all of them
  is a permutation of \<open>[0..<S]\<close>, so it has no duplicate and misses none, and the four
  counts add up to \<open>S\<close>. No index is ever duplicated; an index is lost to the queues
  and the holders exactly when its holder has died; in the states in which none has,
  the free queue, the full queue and the holders have every index once.
\<close>

theorem index_conservation:
  "mset (free_indices (free_queue (exec cfg evs (initial n p actors k)))
           @ full_queue (exec cfg evs (initial n p actors k))
           @ in_flight (exec cfg evs (initial n p actors k))
           @ abandoned (exec cfg evs (initial n p actors k))) = mset [0..<n] \<and>
   distinct (free_indices (free_queue (exec cfg evs (initial n p actors k)))
           @ full_queue (exec cfg evs (initial n p actors k))
           @ in_flight (exec cfg evs (initial n p actors k))
           @ abandoned (exec cfg evs (initial n p actors k))) \<and>
   set (free_indices (free_queue (exec cfg evs (initial n p actors k))))
     \<union> set (full_queue (exec cfg evs (initial n p actors k)))
     \<union> set (in_flight (exec cfg evs (initial n p actors k)))
     = {0..<n} - set (abandoned (exec cfg evs (initial n p actors k))) \<and>
   length (free_indices (free_queue (exec cfg evs (initial n p actors k))))
     + length (full_queue (exec cfg evs (initial n p actors k)))
     + length (in_flight (exec cfg evs (initial n p actors k)))
     + length (abandoned (exec cfg evs (initial n p actors k))) = n \<and>
   (abandoned (exec cfg evs (initial n p actors k)) = [] \<longrightarrow>
      mset (free_indices (free_queue (exec cfg evs (initial n p actors k)))
           @ full_queue (exec cfg evs (initial n p actors k))
           @ in_flight (exec cfg evs (initial n p actors k))) = mset [0..<n])"
proof -
  let ?s = "exec cfg evs (initial n p actors k)"
  let ?all = "free_indices (free_queue ?s) @ full_queue ?s @ in_flight ?s @ abandoned ?s"
  have "tokens ?s = mset [0..<n]"
    by (simp add: tokens_exec tokens_initial)
  moreover have "tokens ?s = mset ?all"
    unfolding tokens_def in_flight_def abandoned_def by (simp add: ac_simps)
  ultimately have m: "mset ?all = mset [0..<n]"
    by simp
  then have d: "distinct ?all"
    by (metis distinct_upt mset_eq_imp_distinct_iff)
  from m have st: "set ?all = {0..<n}"
    by (metis mset_eq_setD set_upt)
  from m have len: "length ?all = n"
    by (metis length_upt minus_nat.diff_0 size_mset)
  have "set (free_indices (free_queue ?s)) \<union> set (full_queue ?s) \<union> set (in_flight ?s)
      = {0..<n} - set (abandoned ?s)"
    using d st by auto
  moreover have "mset (free_indices (free_queue ?s) @ full_queue ?s @ in_flight ?s) = mset [0..<n]"
    if "abandoned ?s = []"
    using m that by simp
  ultimately show ?thesis using m d len by simp
qed

lemma small_run:
  "exec small_config [WorkerStep 0, WorkerStep 0, WorkerStep 0, LearnerStep 0, LearnerStep 0,
     WorkerStep 0] small_system
   = \<lparr>free_queue = [], full_queue = [],
    shared =
      \<lparr>shared_storages =
         [(''obs'', [[Obs 0, Obs 1], [Float (Finite 0), Float (Finite 0)]]),
          (''reward'', [[Float (Finite 0), Float (Finite 1)], [Float (Finite 0), Float (Finite 0)]]),
          (''terminated'', [[UInt8 1, UInt8 0], [Float (Finite 0), Float (Finite 0)]]),
          (''truncated'', [[UInt8 1, UInt8 0], [Float (Finite 0), Float (Finite 0)]]),
          (''episode_return'', [[Float (Finite 0), Float (Finite 1)], [Float (Finite 0), Float (Finite 0)]]),
          (''episode_step'', [[Int32 0, Int32 1], [Float (Finite 0), Float (Finite 0)]]),
          (''last_action'', [[Int64 0, Int64 0], [Float (Finite 0), Float (Finite 0)]]),
          (''policy_logits'', [[Float (Finite 0), Float (Finite 0)], [Float (Finite 0), Float (Finite 0)]]),
          (''baseline'', [[Float (Finite 0), Float (Finite 0)], [Float (Finite 0), Float (Finite 0)]]),
          (''action'', [[Int64 0, Int64 0], [Float (Finite 0), Float (Finite 0)]])],
         init_actor_state_storages = [[[0]], [[0]]]\<rparr>,
    workers =
      [(Filling 1,
        \<lparr>environment =
           \<lparr>env = 1, episode_return = Some 0, episode_step = Some 0\<rparr>,
           memory = \<lparr>float_cells = [Finite 1], int32_cells = [1]\<rparr>,
           env_output =
             \<lparr>f_obs = 1, f_reward = Finite 1, f_terminated = 0, f_truncated = 0,
                f_episode_return = 0, f_episode_step = 0,
                f_last_action = Int64 0\<rparr>,
           actor_output =
             [(''policy_logits'', Float (Finite 0)), (''baseline'', Float (Finite 0)),
              (''action'', Int64 0)],
           actor_state = [[1]]\<rparr>)],
    learners = [Getting [0]], lock = True\<rparr>"
  by (simp add: small_system_def small_config_def small_pool_def initial_def act_start_def
      counting_gym_def constant_model_def system_step_def worker_step_def learner_step_def
      fill_def frame_items_def write_frame_def Environment_reset_def Environment_step_def
      Environment_init_def new_float_def new_int32_def DistributedStorage_init_def
      action_dim_of_def specs_def upt_rec Let_def cast32_def fp_add_def)


theorem index_conservation_witness:
  "abandoned (exec small_config [WorkerStep 0, WorkerStep 0, WorkerStep 0, LearnerStep 0,
     LearnerStep 0, WorkerStep 0] small_system) = [] \<and>
   in_flight (exec small_config [WorkerStep 0, WorkerStep 0, WorkerStep 0, LearnerStep 0,
     LearnerStep 0, WorkerStep 0] small_system) = [1, 0] \<and>
   mset (free_indices (free_queue (exec small_config [WorkerStep 0, WorkerStep 0, WorkerStep 0,
       LearnerStep 0, LearnerStep 0, WorkerStep 0] small_system))
     @ full_queue (exec small_config [WorkerStep 0, WorkerStep 0, WorkerStep 0,
       LearnerStep 0, LearnerStep 0, WorkerStep 0] small_system)
     @ in_flight (exec small_config [WorkerStep 0, WorkerStep 0, WorkerStep 0,
       LearnerStep 0, LearnerStep 0, WorkerStep 0] small_system)) = mset [0..<2]"
proof -
  let ?evs = "[WorkerStep 0, WorkerStep 0, WorkerStep 0, LearnerStep 0, LearnerStep 0,
     WorkerStep 0]"
  have a: "abandoned (exec small_config ?evs small_system) = []"
    and f: "in_flight (exec small_config ?evs small_system) = [1, 0]"
    unfolding small_run
    by (simp_all add: abandoned_def in_flight_def worker_abandoned_def worker_held_def
        learner_held_def learner_abandoned_def)
  from index_conservation [of small_config ?evs 2 small_pool
      "[act_start counting_gym constant_model 0 0]" 1] a f
  show ?thesis
    by (simp only: small_system_def [symmetric] simp_thms)
qed

text \<open>
  The claim C1 as stated fails: an index can be lost. With slot 0 alone in circulation,
  an actor takes it from the free queue and its rollout raises (here KeyError, the
  policy's output has no \<^verbatim>\<open>action\<close>); \<^verbatim>\<open>act\<close> re-raises and the process ends. The
  index 0 is then on neither queue and no running actor or learner holds it.
\<close>

theorem fill_exception_loses_index:
  "mute_system = initial 1 small_pool [act_start counting_gym mute_model 0 0] 1 \<and>
   free_queue (exec mute_config [WorkerStep 0, WorkerStep 0] mute_system) = [] \<and>
   full_queue (exec mute_config [WorkerStep 0, WorkerStep 0] mute_system) = [] \<and>
   in_flight (exec mute_config [WorkerStep 0, WorkerStep 0] mute_system) = [] \<and>
   map fst (workers (exec mute_config [WorkerStep 0, WorkerStep 0] mute_system))
     = [Faulted 0 KeyError] \<and>
   abandoned (exec mute_config [WorkerStep 0, WorkerStep 0] mute_system) = [0] \<and>
   mset ([] :: nat list) \<noteq> mset [0..<1]"
  by (simp add: mute_system_def mute_config_def small_pool_def initial_def act_start_def
      counting_gym_def mute_model_def system_step_def worker_step_def
      fill_def frame_items_def write_frame_def Environment_reset_def
      Environment_init_def new_float_def new_int32_def DistributedStorage_init_def
      action_dim_of_def specs_def upt_rec Let_def in_flight_def abandoned_def
      worker_held_def worker_abandoned_def learner_held_def learner_abandoned_def)

text \<open>No index has been left behind exactly when no holder of an index has died.\<close>

lemma abandoned_empty_iff:
  "abandoned s = [] \<longleftrightarrow>
     (\<forall>w \<in> set (workers s). \<forall>i e. fst w \<noteq> Faulted i e) \<and>
     (\<forall>l \<in> set (learners s). \<forall>indices e. l = Failed indices e \<longrightarrow> indices = [])"
proof -
  have w: "worker_abandoned pc = [] \<longleftrightarrow> (\<forall>i e. pc \<noteq> Faulted i e)" for pc
    by (cases pc) (simp_all add: worker_abandoned_def)
  have l: "learner_abandoned pc = [] \<longleftrightarrow> (\<forall>indices e. pc = Failed indices e \<longrightarrow> indices = [])"
    for pc
    by (cases pc) (simp_all add: learner_abandoned_def)
  show ?thesis
    by (simp add: abandoned_def w l)
qed

lemma stopped_worker_step:
  assumes "w < length (workers s)" and "fst (workers s ! w) = Stopped"
  shows "worker_step cfg w s = s"
  using assms by (cases "workers s ! w") (simp add: worker_step_def)

lemma length_workers_step: "length (workers (system_step cfg ev s)) = length (workers s)"
  by (cases ev)
    (auto simp: system_step_def worker_step_def learner_step_def
      split: prod.splits worker_pc.splits list.splits option.splits sum.splits
        learner_pc.splits)

lemma stopped_stays:
  assumes "w < length (workers s)" and "fst (workers s ! w) = Stopped"
  shows "fst (workers (system_step cfg ev s) ! w) = Stopped"
proof (cases ev)
  case (WorkerStep w')
  show ?thesis
  proof (cases "w' = w")
    case True
    with assms WorkerStep show ?thesis
      by (simp add: system_step_def stopped_worker_step)
  next
    case False
    with assms WorkerStep show ?thesis
      by (auto simp: system_step_def worker_step_def
          split: prod.splits worker_pc.splits list.splits option.splits sum.splits)
  qed
next
  case (LearnerStep l)
  with assms show ?thesis
    by (auto simp: system_step_def learner_step_def
        split: learner_pc.splits list.splits sum.splits)
next
  case PutSentinel
  with assms show ?thesis by (simp add: system_step_def)
qed

lemma stopped_exec:
  assumes "w < length (workers s)" and "fst (workers s ! w) = Stopped"
  shows "fst (workers (exec cfg evs s) ! w) = Stopped \<and>
    exec cfg evs s = exec cfg (filter (\<lambda>ev. ev \<noteq> WorkerStep w) evs) s"
  using assms
proof (induction evs arbitrary: s)
  case Nil
  then show ?case by simp
next
  case (Cons ev evs)
  have l: "w < length (workers (system_step cfg ev s))"
    using Cons.prems(1) by (simp add: length_workers_step)
  have st: "fst (workers (system_step cfg ev s) ! w) = Stopped"
    using Cons.prems by (rule stopped_stays)
  note ih = Cons.IH [OF l st]
  show ?case
  proof (cases "ev = WorkerStep w")
    case True
    then have e: "system_step cfg ev s = s"
      using Cons.prems by (simp add: system_step_def stopped_worker_step)
    have "exec cfg (ev # evs) s = exec cfg evs s"
      by (simp add: e)
    moreover have "filter (\<lambda>ev. ev \<noteq> WorkerStep w) (ev # evs)
        = filter (\<lambda>ev. ev \<noteq> WorkerStep w) evs"
      using True by simp
    ultimately show ?thesis
      using ih unfolding e by metis
  next
    case False
    then have "filter (\<lambda>ev. ev \<noteq> WorkerStep w) (ev # evs)
        = ev # filter (\<lambda>ev. ev \<noteq> WorkerStep w) evs"
      by simp
    with ih show ?thesis
      by (metis exec.simps(2))
  qed
qed

text \<open>
  Claim C8 (sentinel shutdown). When an actor waiting in \<^verbatim>\<open>free_queue.get()\<close> receives
  the sentinel, that step takes the sentinel off the free queue and changes neither the
  full queue nor the shared storages; the actor has stopped, it stays stopped in every
  continuation, and in every continuation its steps do nothing: the run with its steps
  removed ends in the same state, so it takes nothing from the free queue, puts nothing
  on the full queue and writes nothing.
\<close>

theorem sentinel_shutdown:
  assumes "w < length (workers s)" and "fst (workers s ! w) = Claiming"
    and "free_queue s = None # rest"
  shows "fst (workers (system_step cfg (WorkerStep w) s) ! w) = Stopped \<and>
     free_queue (system_step cfg (WorkerStep w) s) = rest \<and>
     full_queue (system_step cfg (WorkerStep w) s) = full_queue s \<and>
     shared (system_step cfg (WorkerStep w) s) = shared s \<and>
     (\<forall>evs. exec cfg evs (system_step cfg (WorkerStep w) s)
        = exec cfg (filter (\<lambda>ev. ev \<noteq> WorkerStep w) evs) (system_step cfg (WorkerStep w) s)) \<and>
     (\<forall>evs. fst (workers (exec cfg evs (system_step cfg (WorkerStep w) s)) ! w) = Stopped)"
proof -
  obtain a where wa: "workers s ! w = (Claiming, a)"
    using assms(2) by (cases "workers s ! w") simp
  let ?s1 = "s\<lparr> free_queue := rest, workers := (workers s)[w := (Stopped, a)] \<rparr>"
  have s1: "system_step cfg (WorkerStep w) s = ?s1"
    using assms(1,3) wa by (simp add: system_step_def worker_step_def)
  have l: "w < length (workers ?s1)" and st: "fst (workers ?s1 ! w) = Stopped"
    using assms(1) by simp_all
  from stopped_exec [OF l st] st show ?thesis
    unfolding s1 by simp
qed


theorem sentinel_shutdown_witness:
  "fst (workers (system_step small_config (WorkerStep 0) sentinel_system) ! 0) = Stopped \<and>
   free_queue (system_step small_config (WorkerStep 0) sentinel_system) = [Some 0, Some 1] \<and>
   exec small_config [WorkerStep 0, PutSentinel, WorkerStep 0]
       (system_step small_config (WorkerStep 0) sentinel_system)
     = exec small_config [PutSentinel] (system_step small_config (WorkerStep 0) sentinel_system) \<and>
   free_queue (exec small_config [WorkerStep 0, PutSentinel, WorkerStep 0]
       (system_step small_config (WorkerStep 0) sentinel_system)) = [Some 0, Some 1, None] \<and>
   full_queue (exec small_config [WorkerStep 0, PutSentinel, WorkerStep 0]
       (system_step small_config (WorkerStep 0) sentinel_system)) = []"
proof -
  have h: "0 < length (workers sentinel_system)" "fst (workers sentinel_system ! 0) = Claiming"
      "free_queue sentinel_system = None # [Some 0, Some 1]"
    by (simp_all add: sentinel_system_def small_system_def initial_def)
  have f: "filter (\<lambda>ev. ev \<noteq> WorkerStep 0) [WorkerStep 0, PutSentinel, WorkerStep 0]
      = [PutSentinel]"
    by simp
  from sentinel_shutdown [OF h, of small_config] f
  have a: "fst (workers (system_step small_config (WorkerStep 0) sentinel_system) ! 0) = Stopped"
    and b: "free_queue (system_step small_config (WorkerStep 0) sentinel_system)
      = [Some 0, Some 1]"
    and c: "full_queue (system_step small_config (WorkerStep 0) sentinel_system)
      = full_queue sentinel_system"
    and d: "exec small_config [WorkerStep 0, PutSentinel, WorkerStep 0]
       (system_step small_config (WorkerStep 0) sentinel_system)
     = exec small_config [PutSentinel] (system_step small_config (WorkerStep 0) sentinel_system)"
    by metis+
  have "full_queue sentinel_system = []"
    by (simp add: sentinel_system_def small_system_def initial_def)
  with a b c d show ?thesis
    by (simp add: system_step_def)
qed

section \<open>Properties of the actor's rollout\<close>

lemma frame_at_write_frame:
  assumes "write_frame st key idx t v = Inr st'"
  shows "frame_at st' key' idx' t'
    = (if key' = key \<and> idx' = idx \<and> t' = t then Some v else frame_at st key' idx' t')"
proof -
  from assms obtain slots where sl: "map_of st key = Some slots" "idx < length slots"
      "t < length (slots ! idx)"
      and st': "st' = AList.update key (slots[idx := (slots ! idx)[t := v]]) st"
    by (auto simp: write_frame_def split: option.splits if_splits)
  have m: "map_of st' = (map_of st)(key \<mapsto> slots[idx := (slots ! idx)[t := v]])"
    unfolding st' by (rule update_conv')
  show ?thesis
  proof (cases "key' = key")
    case False
    then show ?thesis by (simp add: frame_at_def m)
  next
    case True
    show ?thesis
    proof (cases "idx' = idx")
      case False
      with True sl show ?thesis by (simp add: frame_at_def m)
    next
      case idx: True
      with True sl show ?thesis
        by (cases "t' = t") (simp_all add: frame_at_def m)
    qed
  qed
qed

lemma last_written_Cons:
  "last_written ((k, v) # items) key
    = (case last_written items key of Some x \<Rightarrow> Some x | None \<Rightarrow> if key = k then Some v else None)"
  by (simp add: last_written_def map_of_append map_add_def split: option.splits)

lemma last_written_append:
  "last_written (xs @ ys) key
    = (case last_written ys key of Some x \<Rightarrow> Some x | None \<Rightarrow> last_written xs key)"
  by (simp add: last_written_def map_of_append map_add_def split: option.splits)

lemma last_written_Some_iff: "(\<exists>v. last_written items key = Some v) \<longleftrightarrow> key \<in> fst ` set items"
  by (simp add: last_written_def map_of_eq_None_iff [symmetric] del: map_of_eq_None_iff)
    (metis map_of_eq_None_iff not_None_eq set_rev)

lemma frame_at_write_items:
  assumes "write_items st idx t items = (None, st')"
  shows "frame_at st' key idx' t'
    = (if idx' = idx \<and> t' = t
       then (case last_written items key of Some v \<Rightarrow> Some v | None \<Rightarrow> frame_at st key idx t)
       else frame_at st key idx' t')"
  using assms
proof (induction items arbitrary: st)
  case Nil
  then show ?case by (simp add: last_written_def)
next
  case (Cons kv items)
  obtain k v where kv: "kv = (k, v)" by (cases kv)
  from Cons.prems kv obtain st1 where w: "write_frame st k idx t v = Inr st1"
      and r: "write_items st1 idx t items = (None, st')"
    by (auto split: sum.splits)
  show ?case
    unfolding Cons.IH [OF r] kv last_written_Cons frame_at_write_frame [OF w]
    by (simp split: option.splits)
qed

lemma write_items_append:
  "write_items st idx t (xs @ ys)
    = (case write_items st idx t xs of
         (Some e, st1) \<Rightarrow> (Some e, st1)
       | (None, st1) \<Rightarrow> write_items st1 idx t ys)"
  by (induction xs arbitrary: st) (auto split: sum.splits)


lemma frame_at_write_outputs:
  assumes "write_items st idx t xs = (None, st1)" and "write_items st1 idx t ys = (None, st2)"
  shows "frame_at st2 key idx' t'
    = (if idx' = idx \<and> t' = t
       then (case last_written (xs @ ys) key of Some v \<Rightarrow> Some v | None \<Rightarrow> frame_at st key idx t)
       else frame_at st key idx' t')"
proof -
  have "write_items st idx t (xs @ ys) = (None, st2)"
    using assms by (simp add: write_items_append)
  then show ?thesis by (rule frame_at_write_items)
qed

lemma rollout_frames:
  assumes "rollout gy model idx t n a st = (Inr a', st')"
  shows "(\<forall>key t'. t' \<le> t \<longrightarrow> frame_at st' key idx t' = frame_at st key idx t') \<and>
    (0 < n \<longrightarrow> (\<forall>key \<in> fst ` set (outputs a').
        frame_at st' key idx (t + n) = last_written (outputs a') key)) \<and>
    (n = 0 \<longrightarrow> a' = a \<and> st' = st)"
  using assms
proof (induction n arbitrary: t a st)
  case 0
  then show ?case by simp
next
  case (Suc n)
  obtain ao as where ga:
      "get_action model (frame_items (memory a) (env_output a)) (actor_state a) = (ao, as)"
    by (cases "get_action model (frame_items (memory a) (env_output a)) (actor_state a)")
  from Suc.prems ga obtain action where act: "map_of ao ''action'' = Some action"
    by (auto split: option.splits)
  from Suc.prems ga act obtain eo e' m' where
      es: "Environment_step gy (environment a) (memory a) action = Inr (eo, e', m')"
    by (auto split: sum.splits)
  from Suc.prems ga act es obtain st1 where
      w1: "write_items st idx (t + 1) (frame_items m' eo) = (None, st1)"
    by (auto split: prod.splits option.splits)
  from Suc.prems ga act es w1 obtain st2 where
      w2: "write_items st1 idx (t + 1) ao = (None, st2)"
    by (auto split: prod.splits option.splits)
  let ?a1 = "\<lparr> environment = e', memory = m', env_output = eo, actor_output = ao,
       actor_state = as \<rparr>"
  have r: "rollout gy model idx (t + 1) n ?a1 st2 = (Inr a', st')"
    using Suc.prems ga act es w1 w2 by simp
  note ih = Suc.IH [OF r]
  note fr = frame_at_write_outputs [OF w1 w2]
  have o1: "outputs ?a1 = frame_items m' eo @ ao"
    by (simp add: outputs_def)
  have below: "\<forall>key t'. t' \<le> t \<longrightarrow> frame_at st' key idx t' = frame_at st key idx t'"
    using ih fr by simp
  have top: "\<forall>key \<in> fst ` set (outputs a').
      frame_at st' key idx (t + Suc n) = last_written (outputs a') key"
  proof (cases n)
    case 0
    with ih have eq: "a' = ?a1" "st' = st2" by simp_all
    show ?thesis
    proof
      fix key assume "key \<in> fst ` set (outputs a')"
      then obtain v where "last_written (frame_items m' eo @ ao) key = Some v"
        unfolding eq o1 using last_written_Some_iff by metis
      then show "frame_at st' key idx (t + Suc n) = last_written (outputs a') key"
        unfolding eq o1 fr using 0 by simp
    qed
  next
    case (Suc k)
    with ih show ?thesis by simp
  qed
  from below top show ?case by simp
qed

text \<open>
  A fill that ends without an exception leaves in frame 0 the outputs the actor held
  when it began, and in frame \<open>num_steps\<close> the outputs it holds when it ends.
\<close>

lemma fill_frames:
  assumes "fill gy model n_steps idx a p = (Inr a', p')"
  shows "(\<forall>key \<in> fst ` set (outputs a).
        frame_at (shared_storages p') key idx 0 = last_written (outputs a) key) \<and>
    (\<forall>key \<in> fst ` set (outputs a').
        frame_at (shared_storages p') key idx n_steps = last_written (outputs a') key)"
proof -
  from assms obtain st1 where
      w1: "write_items (shared_storages p) idx 0 (frame_items (memory a) (env_output a))
        = (None, st1)"
    by (auto simp: fill_def split: prod.splits option.splits)
  from assms w1 obtain st2 where w2: "write_items st1 idx 0 (actor_output a) = (None, st2)"
    by (auto simp: fill_def split: prod.splits option.splits)
  from assms w1 w2 obtain sts where
      ws: "write_state (init_actor_state_storages p) idx 0 (actor_state a) = (None, sts)"
    by (auto simp: fill_def split: prod.splits option.splits)
  from assms w1 w2 ws obtain st3 where r: "rollout gy model idx 0 n_steps a st2 = (Inr a', st3)"
      and p': "shared_storages p' = st3"
    by (auto simp: fill_def split: prod.splits)
  note fr = frame_at_write_outputs [OF w1 w2, folded outputs_def]
  note ro = rollout_frames [OF r]
  have zero: "\<forall>key \<in> fst ` set (outputs a).
      frame_at st3 key idx 0 = last_written (outputs a) key"
  proof
    fix key assume "key \<in> fst ` set (outputs a)"
    then obtain v where "last_written (outputs a) key = Some v"
      using last_written_Some_iff by metis
    moreover have "frame_at st3 key idx 0 = frame_at st2 key idx 0"
      using ro by simp
    ultimately show "frame_at st3 key idx 0 = last_written (outputs a) key"
      unfolding fr by simp
  qed
  have last: "\<forall>key \<in> fst ` set (outputs a').
      frame_at st3 key idx n_steps = last_written (outputs a') key"
  proof (cases n_steps)
    case 0
    with ro have "a' = a" by simp
    with zero 0 show ?thesis by simp
  next
    case (Suc k)
    with ro show ?thesis by simp
  qed
  from zero last show ?thesis unfolding p' by simp
qed

lemma outputs_keys:
  "''obs'' \<in> fst ` set (outputs a)" "''terminated'' \<in> fst ` set (outputs a)"
  "''truncated'' \<in> fst ` set (outputs a)"
  by (simp_all add: outputs_def frame_items_def)


lemma other_step_keeps_worker:
  assumes "ev \<noteq> WorkerStep w" and "w < length (workers s)"
  shows "workers (system_step cfg ev s) ! w = workers s ! w"
proof (cases ev)
  case (WorkerStep w')
  with assms(1) have "w' \<noteq> w" by simp
  with WorkerStep assms(2) show ?thesis
    by (auto simp: system_step_def worker_step_def
        split: prod.splits worker_pc.splits list.splits option.splits sum.splits)
next
  case (LearnerStep l)
  then show ?thesis
    by (auto simp: system_step_def learner_step_def
        split: learner_pc.splits list.splits sum.splits)
next
  case PutSentinel
  then show ?thesis by (simp add: system_step_def)
qed

lemma others_keep_worker:
  assumes "WorkerStep w \<notin> set evs" and "w < length (workers s)"
  shows "workers (exec cfg evs s) ! w = workers s ! w \<and>
    length (workers (exec cfg evs s)) = length (workers s)"
  using assms
proof (induction evs arbitrary: s)
  case Nil
  then show ?case by simp
next
  case (Cons ev evs)
  from Cons.prems have ne: "ev \<noteq> WorkerStep w" and rest: "WorkerStep w \<notin> set evs"
    by auto
  have l: "w < length (workers (system_step cfg ev s))"
    using Cons.prems(2) by (simp add: length_workers_step)
  from Cons.IH [OF rest l] other_step_keeps_worker [OF ne Cons.prems(2)]
  show ?case by (simp add: length_workers_step)
qed

lemma fill_step_published:
  assumes "w < length (workers s)" and "workers s ! w = (Filling idx, a)"
    and "fst (workers (system_step cfg (WorkerStep w) s) ! w) = Publishing idx'"
  shows "\<exists>a' p'. fill (cfg_gym cfg) (cfg_model cfg) (cfg_num_steps cfg) idx a (shared s)
        = (Inr a', p') \<and>
      workers (system_step cfg (WorkerStep w) s) ! w = (Publishing idx, a') \<and>
      shared (system_step cfg (WorkerStep w) s) = p' \<and>
      length (workers (system_step cfg (WorkerStep w) s)) = length (workers s)"
proof -
  obtain r p' where f: "fill (cfg_gym cfg) (cfg_model cfg) (cfg_num_steps cfg) idx a (shared s)
      = (r, p')"
    by (cases "fill (cfg_gym cfg) (cfg_model cfg) (cfg_num_steps cfg) idx a (shared s)")
  show ?thesis
  proof (cases r)
    case (Inl e)
    with assms f show ?thesis
      by (simp add: system_step_def worker_step_def)
  next
    case (Inr a')
    with assms f show ?thesis
      by (simp add: system_step_def worker_step_def)
  qed
qed

text \<open>
  Claim C3 (overlap correctness). Actor \<open>w\<close> holds slot \<open>idx\<close> and fills it (state
  \<open>s1\<close>), puts it on the full queue (\<open>s2\<close>), dequeues a real index from the free queue
  that is \<open>idx\<close> again (\<open>s3\<close>) and fills the slot a second time (\<open>s4\<close>); before, between
  and after these steps the other processes take any steps (\<open>evs1\<close>, \<open>evs2\<close>, \<open>evs3\<close>),
  which may overwrite the pool. Then for \<open>terminated\<close>, \<open>truncated\<close> and \<open>obs\<close>, frame 0
  of the slot after the second fill equals frame \<open>T = num_steps\<close> of the slot after the
  first fill, and it is a written value.
\<close>

theorem overlap_correctness:
  assumes "w < length (workers s0)" and "workers s0 ! w = (Filling idx, a)"
    and "WorkerStep w \<notin> set evs1" and "WorkerStep w \<notin> set evs2"
    and "WorkerStep w \<notin> set evs3"
    and "s1 = system_step cfg (WorkerStep w) s0"
    and "fst (workers s1 ! w) = Publishing idx"
    and "s2 = system_step cfg (WorkerStep w) (exec cfg evs1 s1)"
    and "s3 = system_step cfg (WorkerStep w) (exec cfg evs2 s2)"
    and "fst (workers s3 ! w) = Filling idx"
    and "s4 = system_step cfg (WorkerStep w) (exec cfg evs3 s3)"
    and "fst (workers s4 ! w) = Publishing idx"
    and "key \<in> {''terminated'', ''truncated'', ''obs''}"
  shows "frame_at (shared_storages (shared s4)) key idx 0
      = frame_at (shared_storages (shared s1)) key idx (cfg_num_steps cfg) \<and>
    frame_at (shared_storages (shared s4)) key idx 0 \<noteq> None"
proof -
  from fill_step_published [OF assms(1,2) assms(7) [unfolded assms(6)]]
  obtain a1 where f1: "fill (cfg_gym cfg) (cfg_model cfg) (cfg_num_steps cfg) idx a (shared s0)
        = (Inr a1, shared s1)"
      and w1: "workers s1 ! w = (Publishing idx, a1)" and l1: "w < length (workers s1)"
    unfolding assms(6) using assms(1) by auto
  let ?t1 = "exec cfg evs1 s1"
  from others_keep_worker [OF assms(3) l1, of cfg] w1
  have wt1: "workers ?t1 ! w = (Publishing idx, a1)" and lt1: "w < length (workers ?t1)"
    using l1 by simp_all
  have w2: "workers s2 ! w = (Claiming, a1)" and l2: "w < length (workers s2)"
    unfolding assms(8) using wt1 lt1 by (simp_all add: system_step_def worker_step_def)
  let ?t2 = "exec cfg evs2 s2"
  from others_keep_worker [OF assms(4) l2, of cfg] w2
  have wt2: "workers ?t2 ! w = (Claiming, a1)" and lt2: "w < length (workers ?t2)"
    using l2 by simp_all
  have w3: "workers s3 ! w = (Filling idx, a1)" and l3: "w < length (workers s3)"
    using assms(10) wt2 lt2 unfolding assms(9)
    by (auto simp: system_step_def worker_step_def split: list.splits option.splits)
  let ?t3 = "exec cfg evs3 s3"
  from others_keep_worker [OF assms(5) l3, of cfg] w3
  have wt3: "workers ?t3 ! w = (Filling idx, a1)" and lt3: "w < length (workers ?t3)"
    using l3 by simp_all
  from fill_step_published [OF lt3 wt3 assms(12) [unfolded assms(11)]]
  obtain a2 where f2: "fill (cfg_gym cfg) (cfg_model cfg) (cfg_num_steps cfg) idx a1 (shared ?t3)
        = (Inr a2, shared s4)"
    unfolding assms(11) by auto
  from assms(13) have k: "key \<in> fst ` set (outputs a1)"
    using outputs_keys [of a1] by auto
  then obtain v where v: "last_written (outputs a1) key = Some v"
    using last_written_Some_iff by metis
  from fill_frames [OF f1] k
  have "frame_at (shared_storages (shared s1)) key idx (cfg_num_steps cfg)
      = last_written (outputs a1) key"
    by blast
  moreover from fill_frames [OF f2] k
  have "frame_at (shared_storages (shared s4)) key idx 0 = last_written (outputs a1) key"
    by blast
  ultimately show ?thesis using v by simp
qed


lemmas run_defs = small_config_def small_pool_def initial_def act_start_def
  counting_gym_def constant_model_def system_step_def worker_step_def learner_step_def
  fill_def frame_items_def write_frame_def Environment_reset_def Environment_step_def
  Environment_init_def new_float_def new_int32_def DistributedStorage_init_def
  action_dim_of_def specs_def upt_rec Let_def cast32_def fp_add_def

lemma first_fill_run:
  "system_step small_config (WorkerStep 0) claimed_system
   = \<lparr>free_queue = [], full_queue = [],
    shared =
      \<lparr>shared_storages =
         [(''obs'', [[Obs 0, Obs 1], [Float (Finite 0), Float (Finite 0)]]),
          (''reward'', [[Float (Finite 0), Float (Finite 1)], [Float (Finite 0), Float (Finite 0)]]),
          (''terminated'', [[UInt8 1, UInt8 0], [Float (Finite 0), Float (Finite 0)]]),
          (''truncated'', [[UInt8 1, UInt8 0], [Float (Finite 0), Float (Finite 0)]]),
          (''episode_return'', [[Float (Finite 0), Float (Finite 1)], [Float (Finite 0), Float (Finite 0)]]),
          (''episode_step'', [[Int32 0, Int32 1], [Float (Finite 0), Float (Finite 0)]]),
          (''last_action'', [[Int64 0, Int64 0], [Float (Finite 0), Float (Finite 0)]]),
          (''policy_logits'', [[Float (Finite 0), Float (Finite 0)], [Float (Finite 0), Float (Finite 0)]]),
          (''baseline'', [[Float (Finite 0), Float (Finite 0)], [Float (Finite 0), Float (Finite 0)]]),
          (''action'', [[Int64 0, Int64 0], [Float (Finite 0), Float (Finite 0)]])],
         init_actor_state_storages = [[[0]], [[0]]]\<rparr>,
    workers =
      [(Publishing 0,
        \<lparr>environment =
           \<lparr>env = 1, episode_return = Some 0, episode_step = Some 0\<rparr>,
           memory = \<lparr>float_cells = [Finite 1], int32_cells = [1]\<rparr>,
           env_output =
             \<lparr>f_obs = 1, f_reward = Finite 1, f_terminated = 0, f_truncated = 0,
                f_episode_return = 0, f_episode_step = 0,
                f_last_action = Int64 0\<rparr>,
           actor_output =
             [(''policy_logits'', Float (Finite 0)), (''baseline'', Float (Finite 0)),
              (''action'', Int64 0)],
           actor_state = [[1]]\<rparr>)],
    learners = [Idle], lock = False\<rparr>"
  by (simp add: claimed_system_def single_slot_system_def run_defs)

lemma second_claim_run:
  "system_step small_config (WorkerStep 0)
     (exec small_config
              [LearnerStep 0, LearnerStep 0, LearnerStep 0, LearnerStep 0, LearnerStep 0]
       (system_step small_config (WorkerStep 0)
         (exec small_config [] (system_step small_config (WorkerStep 0) claimed_system))))
   = \<lparr>free_queue = [], full_queue = [],
    shared =
      \<lparr>shared_storages =
         [(''obs'', [[Obs 0, Obs 1], [Float (Finite 0), Float (Finite 0)]]),
          (''reward'', [[Float (Finite 0), Float (Finite 1)], [Float (Finite 0), Float (Finite 0)]]),
          (''terminated'', [[UInt8 1, UInt8 0], [Float (Finite 0), Float (Finite 0)]]),
          (''truncated'', [[UInt8 1, UInt8 0], [Float (Finite 0), Float (Finite 0)]]),
          (''episode_return'', [[Float (Finite 0), Float (Finite 1)], [Float (Finite 0), Float (Finite 0)]]),
          (''episode_step'', [[Int32 0, Int32 1], [Float (Finite 0), Float (Finite 0)]]),
          (''last_action'', [[Int64 0, Int64 0], [Float (Finite 0), Float (Finite 0)]]),
          (''policy_logits'', [[Float (Finite 0), Float (Finite 0)], [Float (Finite 0), Float (Finite 0)]]),
          (''baseline'', [[Float (Finite 0), Float (Finite 0)], [Float (Finite 0), Float (Finite 0)]]),
          (''action'', [[Int64 0, Int64 0], [Float (Finite 0), Float (Finite 0)]])],
         init_actor_state_storages = [[[0]], [[0]]]\<rparr>,
    workers =
      [(Filling 0,
        \<lparr>environment =
           \<lparr>env = 1, episode_return = Some 0, episode_step = Some 0\<rparr>,
           memory = \<lparr>float_cells = [Finite 1], int32_cells = [1]\<rparr>,
           env_output =
             \<lparr>f_obs = 1, f_reward = Finite 1, f_terminated = 0, f_truncated = 0,
                f_episode_return = 0, f_episode_step = 0,
                f_last_action = Int64 0\<rparr>,
           actor_output =
             [(''policy_logits'', Float (Finite 0)), (''baseline'', Float (Finite 0)),
              (''action'', Int64 0)],
           actor_state = [[1]]\<rparr>)],
    learners = [Putting [0] 1], lock = False\<rparr>"
  unfolding first_fill_run
  by (simp add: small_config_def system_step_def worker_step_def learner_step_def
      select_slots_def stack_dim1_def bind_err_def)

lemma second_fill_run:
  "system_step small_config (WorkerStep 0)
     (exec small_config [PutSentinel]
       (system_step small_config (WorkerStep 0)
         (exec small_config
              [LearnerStep 0, LearnerStep 0, LearnerStep 0, LearnerStep 0, LearnerStep 0]
           (system_step small_config (WorkerStep 0)
             (exec small_config [] (system_step small_config (WorkerStep 0) claimed_system))))))
   = \<lparr>free_queue = [None], full_queue = [],
    shared =
      \<lparr>shared_storages =
         [(''obs'', [[Obs 1, Obs 0], [Float (Finite 0), Float (Finite 0)]]),
          (''reward'', [[Float (Finite 1), Float (Finite 1)], [Float (Finite 0), Float (Finite 0)]]),
          (''terminated'', [[UInt8 0, UInt8 1], [Float (Finite 0), Float (Finite 0)]]),
          (''truncated'', [[UInt8 0, UInt8 0], [Float (Finite 0), Float (Finite 0)]]),
          (''episode_return'', [[Float (Finite 1), Float (Finite 2)], [Float (Finite 0), Float (Finite 0)]]),
          (''episode_step'', [[Int32 1, Int32 2], [Float (Finite 0), Float (Finite 0)]]),
          (''last_action'', [[Int64 0, Int64 0], [Float (Finite 0), Float (Finite 0)]]),
          (''policy_logits'', [[Float (Finite 0), Float (Finite 0)], [Float (Finite 0), Float (Finite 0)]]),
          (''baseline'', [[Float (Finite 0), Float (Finite 0)], [Float (Finite 0), Float (Finite 0)]]),
          (''action'', [[Int64 0, Int64 0], [Float (Finite 0), Float (Finite 0)]])],
         init_actor_state_storages = [[[1]], [[0]]]\<rparr>,
    workers =
      [(Publishing 0,
        \<lparr>environment =
           \<lparr>env = 0, episode_return = Some 1, episode_step = Some 1\<rparr>,
           memory = \<lparr>float_cells = [Finite 2, Finite 0], int32_cells = [2, 0]\<rparr>,
           env_output =
             \<lparr>f_obs = 0, f_reward = Finite 1, f_terminated = 1, f_truncated = 0,
                f_episode_return = 0, f_episode_step = 0,
                f_last_action = Int64 0\<rparr>,
           actor_output =
             [(''policy_logits'', Float (Finite 0)), (''baseline'', Float (Finite 0)),
              (''action'', Int64 0)],
           actor_state = [[2]]\<rparr>)],
    learners = [Putting [0] 1], lock = False\<rparr>"
  unfolding second_claim_run
  by (simp add: run_defs)

theorem overlap_correctness_witness:
  "frame_at (shared_storages (shared
      (system_step small_config (WorkerStep 0)
        (exec small_config [PutSentinel]
          (system_step small_config (WorkerStep 0)
            (exec small_config
              [LearnerStep 0, LearnerStep 0, LearnerStep 0, LearnerStep 0, LearnerStep 0]
              (system_step small_config (WorkerStep 0)
                (exec small_config []
                  (system_step small_config (WorkerStep 0) claimed_system))))))))) ''obs'' 0 0
     = frame_at (shared_storages (shared
         (system_step small_config (WorkerStep 0) claimed_system))) ''obs'' 0 1 \<and>
   frame_at (shared_storages (shared
       (system_step small_config (WorkerStep 0) claimed_system))) ''obs'' 0 1 = Some (Obs 1)"
proof -
  have c: "0 < length (workers claimed_system)"
      "workers claimed_system ! 0 = (Filling 0, act_start counting_gym constant_model 0 0)"
    by (simp_all add: claimed_system_def single_slot_system_def initial_def system_step_def
        worker_step_def upt_rec)
  have o: "WorkerStep 0 \<notin> set []"
      "WorkerStep 0 \<notin> set [LearnerStep 0, LearnerStep 0, LearnerStep 0, LearnerStep 0, LearnerStep 0]"
      "WorkerStep 0 \<notin> set [PutSentinel]"
    by simp_all
  have p1: "fst (workers (system_step small_config (WorkerStep 0) claimed_system) ! 0)
      = Publishing 0"
    unfolding first_fill_run by simp
  have p3: "fst (workers (system_step small_config (WorkerStep 0)
     (exec small_config
              [LearnerStep 0, LearnerStep 0, LearnerStep 0, LearnerStep 0, LearnerStep 0]
       (system_step small_config (WorkerStep 0)
         (exec small_config [] (system_step small_config (WorkerStep 0) claimed_system))))) ! 0)
      = Filling 0"
    unfolding second_claim_run by simp
  have p4: "fst (workers (system_step small_config (WorkerStep 0)
     (exec small_config [PutSentinel]
       (system_step small_config (WorkerStep 0)
         (exec small_config
              [LearnerStep 0, LearnerStep 0, LearnerStep 0, LearnerStep 0, LearnerStep 0]
           (system_step small_config (WorkerStep 0)
             (exec small_config []
               (system_step small_config (WorkerStep 0) claimed_system))))))) ! 0)
      = Publishing 0"
    unfolding second_fill_run by simp
  have k: "''obs'' \<in> {''terminated'', ''truncated'', ''obs''}" by simp
  have n: "cfg_num_steps small_config = 1" by (simp add: small_config_def)
  have v: "frame_at (shared_storages (shared
       (system_step small_config (WorkerStep 0) claimed_system))) ''obs'' 0 1 = Some (Obs 1)"
    unfolding first_fill_run by (simp add: frame_at_def)
  from overlap_correctness [OF c o(1,2,3) refl p1 refl refl p3 refl p4 k] v
  show ?thesis unfolding n by simp
qed

section \<open>Properties of DistributedStorage.sample\<close>

text \<open>
  What holds of claim C2: a call of \<^verbatim>\<open>sample\<close> that returns has dequeued the first
  \<open>batch_size\<close> indices of the full queue and has put every one of them back onto the
  free queue; the batch it returns is made of the frames the pool held during the call
  (\<^verbatim>\<open>torch.stack\<close> copies them).
\<close>

lemma sample_releases_indices:
  assumes "sample batch_size free full p = Some (Inr (batch, gen), free', full')"
  shows "free' = free @ map Some (take batch_size full) \<and> full' = drop batch_size full \<and>
    gen = StateGenerator (take batch_size full) \<and> length (take batch_size full) = batch_size"
  using assms
  by (auto simp: sample_def Let_def split: if_splits sum.splits)

lemma sample_blocks_iff:
  "sample batch_size free full p = None \<longleftrightarrow> length full < batch_size"
  by (simp add: sample_def Let_def)

lemma stack_dim1_frames:
  assumes "stack_dim1 tensors = Inr rows" and "j < length tensors" and "t < length (tensors ! j)"
  shows "rows ! t ! j = tensors ! j ! t"
proof -
  from assms(1,2) obtain t0 rest where ts: "tensors = t0 # rest"
      and all: "list_all (\<lambda>x. length x = length t0) tensors"
      and rows: "rows = map (\<lambda>i. map (\<lambda>x. x ! i) tensors) [0..<length t0]"
    by (auto simp: stack_dim1_def split: list.splits if_splits)
  from all assms(2) have "length (tensors ! j) = length t0"
    by (simp add: list_all_length)
  with assms(2,3) show ?thesis
    unfolding rows by simp
qed

lemma filled_pool_eq:
  "filled_pool =
      \<lparr>shared_storages =
         [(''obs'', [[Obs 0, Obs 1], [Float (Finite 0), Float (Finite 0)]]),
          (''reward'', [[Float (Finite 0), Float (Finite 1)], [Float (Finite 0), Float (Finite 0)]]),
          (''terminated'', [[UInt8 1, UInt8 0], [Float (Finite 0), Float (Finite 0)]]),
          (''truncated'', [[UInt8 1, UInt8 0], [Float (Finite 0), Float (Finite 0)]]),
          (''episode_return'', [[Float (Finite 0), Float (Finite 1)], [Float (Finite 0), Float (Finite 0)]]),
          (''episode_step'', [[Int32 0, Int32 1], [Float (Finite 0), Float (Finite 0)]]),
          (''last_action'', [[Int64 0, Int64 0], [Float (Finite 0), Float (Finite 0)]]),
          (''policy_logits'', [[Float (Finite 0), Float (Finite 0)], [Float (Finite 0), Float (Finite 0)]]),
          (''baseline'', [[Float (Finite 0), Float (Finite 0)], [Float (Finite 0), Float (Finite 0)]]),
          (''action'', [[Int64 0, Int64 0], [Float (Finite 0), Float (Finite 0)]])],
         init_actor_state_storages = [[[0]], [[0]]]\<rparr>"
  unfolding filled_pool_def first_fill_run by simp

lemma filled_actor_eq:
  "filled_actor =
        \<lparr>environment =
           \<lparr>env = 1, episode_return = Some 0, episode_step = Some 0\<rparr>,
           memory = \<lparr>float_cells = [Finite 1], int32_cells = [1]\<rparr>,
           env_output =
             \<lparr>f_obs = 1, f_reward = Finite 1, f_terminated = 0, f_truncated = 0,
                f_episode_return = 0, f_episode_step = 0,
                f_last_action = Int64 0\<rparr>,
           actor_output =
             [(''policy_logits'', Float (Finite 0)), (''baseline'', Float (Finite 0)),
              (''action'', Int64 0)],
           actor_state = [[1]]\<rparr>"
  unfolding filled_actor_def first_fill_run by simp

text \<open>
  Claim C2 fails for the recurrent-state snapshots. A learner samples slot 0 after the
  actor's first fill: the call returns the stacked batch and the state generator, and
  index 0 is back on the free queue. Consumed at once, the generator would give the state
  \<open>[[0]]\<close> that belongs to the batch. The actor then claims slot 0 again and fills it,
  writing its current recurrent state into the state storage; consumed now, as the
  learner's update does, the generator gives \<open>[[1]]\<close>: the state of the next rollout.
\<close>

theorem sample_state_generator_is_live:
  "sample 1 [] [0] filled_pool =
     Some (Inr ([(''obs'', [[Obs 0], [Obs 1]]),
                 (''reward'', [[Float (Finite 0)], [Float (Finite 1)]]),
                 (''terminated'', [[UInt8 1], [UInt8 0]]),
                 (''truncated'', [[UInt8 1], [UInt8 0]]),
                 (''episode_return'', [[Float (Finite 0)], [Float (Finite 1)]]),
                 (''episode_step'', [[Int32 0], [Int32 1]]),
                 (''last_action'', [[Int64 0], [Int64 0]]),
                 (''policy_logits'', [[Float (Finite 0)], [Float (Finite 0)]]),
                 (''baseline'', [[Float (Finite 0)], [Float (Finite 0)]]),
                 (''action'', [[Int64 0], [Int64 0]])],
                StateGenerator [0]),
           [Some 0], []) \<and>
   consume (StateGenerator [0]) (init_actor_state_storages filled_pool) = [[0]] \<and>
   fst (fill counting_gym constant_model 1 0 filled_actor filled_pool) = Inr
        \<lparr>environment =
           \<lparr>env = 0, episode_return = Some 1, episode_step = Some 1\<rparr>,
           memory = \<lparr>float_cells = [Finite 2, Finite 0], int32_cells = [2, 0]\<rparr>,
           env_output =
             \<lparr>f_obs = 0, f_reward = Finite 1, f_terminated = 1, f_truncated = 0,
                f_episode_return = 0, f_episode_step = 0,
                f_last_action = Int64 0\<rparr>,
           actor_output =
             [(''policy_logits'', Float (Finite 0)), (''baseline'', Float (Finite 0)),
              (''action'', Int64 0)],
           actor_state = [[2]]\<rparr> \<and>
   consume (StateGenerator [0])
     (init_actor_state_storages
       (snd (fill counting_gym constant_model 1 0 filled_actor filled_pool))) = [[1]]"
  unfolding filled_pool_eq filled_actor_eq
  by (simp add: sample_def select_slots_def stack_dim1_def bind_err_def consume_def
      zip_star.simps upt_rec run_defs)

end
